theory Spec2Isabelle
  imports Complex_Main "HOL-Library.Extended_Nat" "HOL-Library.Multiset"
begin

section \<open>Strings of the admin extension\<close>

text \<open>
  The sources are TypeScript (\<^verbatim>\<open>admin/src/components/SubNavInjector.tsx\<close>). A JavaScript
  string is a sequence of code units; here a string is a \<^typ>\<open>char list\<close> and a
  \<^typ>\<open>char\<close> stands for the code unit with the same number (U+0000 to U+00FF).
  The regular-expression class \<^verbatim>\<open>\s\<close> and \<^verbatim>\<open>String.prototype.trim\<close> use the same set of
  white space and line terminators; the members of that set below U+0100 are
  TAB, LF, VT, FF, CR, SPACE and NO-BREAK SPACE.  \<^verbatim>\<open>\d\<close> is the ten ASCII digits.
\<close>

definition isWhitespace :: "char \<Rightarrow> bool" where
  "isWhitespace c = (of_char c \<in> set [9, 10, 11, 12, 13, 32, 160 :: nat])"

definition isDigit :: "char \<Rightarrow> bool" where
  "isDigit c = (c \<in> set ''0123456789'')"

text \<open>The integer that a string of digits denotes.\<close>

definition digitValue :: "char \<Rightarrow> nat" where
  "digitValue c = of_char c - 48"

definition decimalValue :: "string \<Rightarrow> nat" where
  "decimalValue s = foldl (\<lambda>n c. 10 * n + digitValue c) 0 s"

text \<open>
  A JavaScript number is a double. The numbers met here are the non-negative integers
  among the doubles and \<^verbatim>\<open>Infinity\<close>, the values of \<^typ>\<open>enat\<close>. \<open>toNumber n\<close> is
  the number for the integer \<open>n\<close>: \<open>n\<close> itself when it fits in the 53 bits of the
  significand, else \<open>n\<close> rounded to 53 significant bits, to the nearest and to the even
  one of two equally near, and \<^verbatim>\<open>Infinity\<close> when that reaches \<open>2^1024\<close>.
\<close>

fun bitLength :: "nat \<Rightarrow> nat" where
  "bitLength n = (if n = 0 then 0 else Suc (bitLength (n div 2)))"

declare bitLength.simps [simp del]

definition toNumber :: "nat \<Rightarrow> enat" where
  "toNumber n =
     (if bitLength n \<le> 53 then enat n
      else (let e = bitLength n - 53;
                q = n div 2 ^ e;
                r = n mod 2 ^ e;
                q' = (if 2 ^ e < 2 * r \<or> (2 * r = 2 ^ e \<and> odd q) then q + 1 else q);
                v = q' * 2 ^ e
            in if v < 2 ^ 1024 then enat v else \<infinity>))"

text \<open>
  \<^verbatim>\<open>parseInt(s, 10)\<close> on a non-empty string of digits: the number for the integer the
  digits denote. (The language lets an engine read the digits after the twentieth
  significant one as zeros; the engines of the browsers convert all of them.)
\<close>

definition parseInt10 :: "string \<Rightarrow> enat" where
  "parseInt10 s = toNumber (decimalValue s)"

text \<open>\<^verbatim>\<open>s.trim()\<close>.\<close>

definition trim :: "string \<Rightarrow> string" where
  "trim s = rev (dropWhile isWhitespace (rev (dropWhile isWhitespace s)))"

text \<open>\<^verbatim>\<open>s.startsWith(p)\<close>.\<close>

fun startsWith :: "string \<Rightarrow> string \<Rightarrow> bool" where
  "startsWith s [] = True"
| "startsWith [] (p # ps) = False"
| "startsWith (c # cs) (p # ps) = (c = p \<and> startsWith cs ps)"

text \<open>\<^verbatim>\<open>s.includes(p)\<close>: \<open>p\<close> occurs in \<open>s\<close> as a contiguous substring.\<close>

fun includesStr :: "string \<Rightarrow> string \<Rightarrow> bool" where
  "includesStr [] p = (p = [])"
| "includesStr (c # cs) p = (startsWith (c # cs) p \<or> includesStr cs p)"

section \<open>The ordering hint: \<^verbatim>\<open>extractSortOrder\<close>\<close>

text \<open>
  \<^verbatim>\<open>displayName.match(/^\[(\d+)\]\s*/)\<close>. The match succeeds when the name starts with
  \<^verbatim>\<open>[\<close>, one or more digits and \<^verbatim>\<open>]\<close>; \<^verbatim>\<open>\d+\<close> and \<^verbatim>\<open>\s*\<close> are greedy and nothing
  follows them that could make the matcher give characters back, so the group is the
  longest run of digits and the match swallows the longest run of white space
  (possibly none) after the bracket. \<open>matchHint\<close> returns the captured digits and
  what is left of the name once the match is removed, which is what
  \<^verbatim>\<open>displayName.replace(/^\[\d+\]\s*/, '')\<close> returns.
\<close>

definition matchHint :: "string \<Rightarrow> (string \<times> string) option" where
  "matchHint s =
     (case s of
        [] \<Rightarrow> None
      | c # t \<Rightarrow>
          if c = CHR ''[''
          then (let ds = takeWhile isDigit t; r = dropWhile isDigit t
                in case r of
                     [] \<Rightarrow> None
                   | b # u \<Rightarrow>
                       if ds \<noteq> [] \<and> b = CHR '']''
                       then Some (ds, dropWhile isWhitespace u)
                       else None)
          else None)"

text \<open>
  \<^verbatim>\<open>extractSortOrder(displayName, defaultSortOrder)\<close> returns the object
  \<^verbatim>\<open>{ sortOrder, cleanDisplayName }\<close>, here the pair in that order. The default is a
  count of records plus 1000 wherever the function is called, a natural number.
\<close>

definition extractSortOrder :: "string \<Rightarrow> nat \<Rightarrow> enat \<times> string" where
  "extractSortOrder displayName defaultSortOrder =
     (case matchHint displayName of
        Some (ds, cleanDisplayName) \<Rightarrow> (parseInt10 ds, cleanDisplayName)
      | None \<Rightarrow> (enat defaultSortOrder, displayName))"

text \<open>
  The shape of a hinted name, spelled out: \<^verbatim>\<open>[\<close>, digits, \<^verbatim>\<open>]\<close>, a run \<open>ws\<close> of white
  space, and a remainder that does not start with white space.
\<close>

definition hintedName :: "string \<Rightarrow> string \<Rightarrow> string \<Rightarrow> string" where
  "hintedName ds ws rest = CHR ''['' # ds @ CHR '']'' # ws @ rest"

definition hintParts :: "string \<Rightarrow> string \<Rightarrow> string \<Rightarrow> bool" where
  "hintParts ds ws rest =
     (ds \<noteq> [] \<and> list_all isDigit ds \<and> list_all isWhitespace ws \<and>
      (case rest of [] \<Rightarrow> True | c # _ \<Rightarrow> \<not> isWhitespace c))"

text \<open>The decimal text of a number, the way a hint \<^verbatim>\<open>[<N>]\<close> is written.\<close>

definition digitChar :: "nat \<Rightarrow> char" where
  "digitChar n = ''0123456789'' ! n"

fun decimal :: "nat \<Rightarrow> string" where
  "decimal n = (if n < 10 then [digitChar n] else decimal (n div 10) @ [digitChar (n mod 10)])"

declare decimal.simps [simp del]

text \<open>The hint pattern with at least one white-space character after the bracket.\<close>

definition hintThenWhitespace :: "string \<Rightarrow> bool" where
  "hintThenWhitespace s =
     (case matchHint s of
        None \<Rightarrow> False
      | Some (ds, rest) \<Rightarrow> length rest + length ds + 2 < length s)"

section \<open>Splitting a display name: \<^verbatim>\<open>getContentTypeGroup\<close>\<close>

text \<open>
  \<^verbatim>\<open>s.split(sep)\<close> for a string separator. A non-empty separator is looked for from the
  left, the pieces between its occurrences are returned and the search goes on after
  each occurrence; \<open>splitAt p ps acc s\<close> scans \<open>s\<close> for the separator \<open>p # ps\<close>
  with the current piece, reversed, in \<open>acc\<close>. An empty separator splits the string
  into its code units, and the empty string into no piece at all.
\<close>

fun splitAt :: "char \<Rightarrow> string \<Rightarrow> string \<Rightarrow> string \<Rightarrow> string list" where
  "splitAt p ps acc [] = [rev acc]"
| "splitAt p ps acc (c # cs) =
     (if startsWith (c # cs) (p # ps)
      then rev acc # splitAt p ps [] (drop (length ps) cs)
      else splitAt p ps (c # acc) cs)"

definition splitStr :: "string \<Rightarrow> string \<Rightarrow> string list" where
  "splitStr s sep =
     (case sep of
        [] \<Rightarrow> map (\<lambda>c. [c]) s
      | p # ps \<Rightarrow> splitAt p ps [] s)"

text \<open>
  \<^verbatim>\<open>getContentTypeGroup(delimiter, displayName)\<close>:
  \<^verbatim>\<open>displayName.split(delimiter).map((name) => name.trim())[0]\<close>. Reading index 0 of an
  empty array gives \<^verbatim>\<open>undefined\<close>, here \<open>None\<close>.
\<close>

definition getContentTypeGroup :: "string \<Rightarrow> string \<Rightarrow> string option" where
  "getContentTypeGroup delimiter displayName =
     (case map trim (splitStr displayName delimiter) of
        [] \<Rightarrow> None
      | entity0 # _ \<Rightarrow> Some entity0)"

section \<open>Descriptors: \<^verbatim>\<open>formatContentTypes\<close>\<close>

text \<open>
  A record of the content-type listing, with the fields the code reads: \<^verbatim>\<open>ct.uid\<close>
  (here \<open>rawUid\<close>), \<^verbatim>\<open>ct.apiID\<close>, \<^verbatim>\<open>ct.schema.displayName\<close> (which may be absent) and
  \<^verbatim>\<open>ct.schema.kind\<close>.
\<close>

record RawContentType =
  rawUid :: string
  apiID :: string
  schemaDisplayName :: "string option"
  schemaKind :: string

text \<open>
  \<^verbatim>\<open>interface ContentType\<close>. \<open>group\<close> is \<open>None\<close> where the code leaves it
  \<^verbatim>\<open>undefined\<close>; \<open>kind\<close> is the listing's string, compared with \<^verbatim>\<open>'collectionType'\<close> and
  \<^verbatim>\<open>'singleType'\<close> by the renderers.
\<close>

record ContentType =
  uid :: string
  name :: string
  displayName :: string
  group :: "string option"
  isDisplayed :: bool
  href :: string
  kind :: string
  sortOrder :: enat

text \<open>String concatenation turns \<^verbatim>\<open>undefined\<close> into the text \<^verbatim>\<open>undefined\<close>.\<close>

definition toStr :: "string option \<Rightarrow> string" where
  "toStr v = (case v of None \<Rightarrow> ''undefined'' | Some s \<Rightarrow> s)"

text \<open>The filter of \<^verbatim>\<open>formatContentTypes\<close>: \<^verbatim>\<open>api::\<close> and \<^verbatim>\<open>plugin::\<close> content types.\<close>

definition isApiOrPlugin :: "RawContentType \<Rightarrow> bool" where
  "isApiOrPlugin ct = (startsWith (rawUid ct) ''api::'' \<or> startsWith (rawUid ct) ''plugin::'')"

text \<open>\<^verbatim>\<open>ct.schema.displayName || ct.apiID\<close>: a missing or empty display name is falsy.\<close>

definition rawDisplayName :: "RawContentType \<Rightarrow> string" where
  "rawDisplayName ct =
     (case schemaDisplayName ct of
        None \<Rightarrow> apiID ct
      | Some n \<Rightarrow> if n \<noteq> [] then n else apiID ct)"

text \<open>The callback of \<^verbatim>\<open>.map\<close> in \<^verbatim>\<open>formatContentTypes\<close>, for one retained record.\<close>

definition formatContentType :: "string \<Rightarrow> nat \<Rightarrow> RawContentType \<Rightarrow> ContentType" where
  "formatContentType delimiter defaultSortOrder ct =
     (let displayName0 = rawDisplayName ct;
          kind0 = schemaKind ct;
          (sortOrder0, cleanDisplayName) = extractSortOrder displayName0 defaultSortOrder;
          groupName = getContentTypeGroup delimiter cleanDisplayName;
          newDisplayName =
            (if startsWith cleanDisplayName (toStr groupName @ delimiter)
             then drop (length (toStr groupName @ delimiter)) cleanDisplayName
             else cleanDisplayName)
      in \<lparr> uid = rawUid ct,
           name = apiID ct,
           displayName = newDisplayName,
           group = groupName,
           isDisplayed = True,
           href = ''/admin/content-manager/'' @
                  (if kind0 = ''singleType'' then ''single-types'' else ''collection-types'') @
                  ''/'' @ rawUid ct,
           kind = kind0,
           sortOrder = sortOrder0 \<rparr>)"

text \<open>
  \<^verbatim>\<open>formatContentTypes(delimiter, data)\<close>; the argument is \<^verbatim>\<open>data.data\<close>, \<open>None\<close> when
  it is missing. The default sort order is computed from the length of the listing as
  it arrives, before the filter.
\<close>

definition formatContentTypes :: "string \<Rightarrow> RawContentType list option \<Rightarrow> ContentType list" where
  "formatContentTypes delimiter data =
     (case data of
        None \<Rightarrow> []
      | Some records \<Rightarrow>
          (let defaultSortOrder = length records + 1000
           in map (formatContentType delimiter defaultSortOrder) (filter isApiOrPlugin records)))"

section \<open>Sorting with a comparator\<close>

text \<open>
  \<^verbatim>\<open>Array.prototype.sort(compare)\<close> is a stable sort: for a comparator that orders the
  elements consistently its result is the one stable arrangement, whatever algorithm
  the engine runs. The model is the stable insertion sort; an element goes before
  the first element it does not compare greater than. Only the sign of the
  comparator's result is used.
\<close>

fun insertBy :: "('a \<Rightarrow> 'a \<Rightarrow> int) \<Rightarrow> 'a \<Rightarrow> 'a list \<Rightarrow> 'a list" where
  "insertBy cmp x [] = [x]"
| "insertBy cmp x (y # ys) = (if cmp x y \<le> 0 then x # y # ys else y # insertBy cmp x ys)"

definition sortBy :: "('a \<Rightarrow> 'a \<Rightarrow> int) \<Rightarrow> 'a list \<Rightarrow> 'a list" where
  "sortBy cmp xs = foldr (insertBy cmp) xs []"

text \<open>
  \<^verbatim>\<open>a.localeCompare(b)\<close> depends on the host's collation and is a parameter \<open>lc\<close> of
  the model. A collation orders strings consistently: comparing the other way
  round flips the sign, and "not greater than" is transitive.
\<close>

definition consistentCompare :: "(string \<Rightarrow> string \<Rightarrow> int) \<Rightarrow> bool" where
  "consistentCompare lc =
     ((\<forall>a b. (lc a b < 0) = (lc b a > 0)) \<and>
      (\<forall>a b c. lc a b \<le> 0 \<and> lc b c \<le> 0 \<longrightarrow> lc a c \<le> 0))"

text \<open>A collation to run the model with: code units compared from the left.\<close>

fun ordinalCompare :: "string \<Rightarrow> string \<Rightarrow> int" where
  "ordinalCompare [] [] = 0"
| "ordinalCompare [] (b # bs) = -1"
| "ordinalCompare (a # as) [] = 1"
| "ordinalCompare (a # as) (b # bs) =
     (if (of_char a :: nat) < of_char b then -1
      else if (of_char b :: nat) < of_char a then 1
      else ordinalCompare as bs)"

section \<open>The grouping engine: \<^verbatim>\<open>organizeByGroups\<close>\<close>

text \<open>
  \<^verbatim>\<open>interface ContentTypeGroup\<close>. Its fields \<^verbatim>\<open>name\<close> and \<^verbatim>\<open>sortOrder\<close> are
  \<open>groupName\<close> and \<open>groupSortOrder\<close> here, apart from the fields of the same names
  of \<open>ContentType\<close>. The sort order is \<^verbatim>\<open>Math.min\<close> of the items' orders, which is
  \<^verbatim>\<open>Infinity\<close> for no item.
\<close>

record ContentTypeGroup =
  groupName :: string
  items :: "ContentType list"
  groupSortOrder :: enat

datatype error = TypeError

text \<open>
  \<^verbatim>\<open>groupMap\<close> is an object literal \<^verbatim>\<open>{}\<close>, so \<^verbatim>\<open>groupMap[groupName]\<close> also finds the
  properties every object inherits. For such a name the test \<^verbatim>\<open>!groupMap[groupName]\<close>
  fails, no array is stored, and \<^verbatim>\<open>groupMap[groupName].push\<close> is not a function: the
  call throws a \<^verbatim>\<open>TypeError\<close>.
\<close>

definition objectPrototypeNames :: "string list" where
  "objectPrototypeNames =
     [''constructor'', ''hasOwnProperty'', ''isPrototypeOf'', ''propertyIsEnumerable'',
      ''toLocaleString'', ''toString'', ''valueOf'', ''__proto__'',
      ''__defineGetter__'', ''__defineSetter__'', ''__lookupGetter__'', ''__lookupSetter__'']"

text \<open>The own properties of \<^verbatim>\<open>groupMap\<close>, in the order they were created.\<close>

type_synonym groupMap = "(string \<times> ContentType list) list"

text \<open>\<^verbatim>\<open>if (!groupMap[k]) groupMap[k] = []; groupMap[k].push(v)\<close> for an own or new key.\<close>

fun pushInto :: "groupMap \<Rightarrow> string \<Rightarrow> ContentType \<Rightarrow> groupMap" where
  "pushInto [] k v = [(k, [v])]"
| "pushInto ((k', vs) # m) k v =
     (if k' = k then (k', vs @ [v]) # m else (k', vs) # pushInto m k v)"

text \<open>\<^verbatim>\<open>contentType.group || 'General'\<close>: a missing or empty group is falsy.\<close>

definition groupKey :: "ContentType \<Rightarrow> string" where
  "groupKey contentType =
     (case group contentType of
        None \<Rightarrow> ''General''
      | Some g \<Rightarrow> if g \<noteq> [] then g else ''General'')"

text \<open>The \<^verbatim>\<open>forEach\<close> loop that fills \<^verbatim>\<open>groupMap\<close>.\<close>

fun fillGroupMap :: "groupMap \<Rightarrow> ContentType list \<Rightarrow> error + groupMap" where
  "fillGroupMap m [] = Inr m"
| "fillGroupMap m (contentType # rest) =
     (let groupName0 = groupKey contentType
      in if groupName0 \<in> set objectPrototypeNames then Inl TypeError
         else fillGroupMap (pushInto m groupName0 contentType) rest)"

text \<open>
  \<^verbatim>\<open>Object.entries\<close> lists the keys that are array indices first, by value, and then
  the other keys in creation order. An array index is the decimal text, with no
  leading zero, of a number below \<open>2^32 - 1\<close>.
\<close>

definition isArrayIndex :: "string \<Rightarrow> bool" where
  "isArrayIndex k =
     (k \<noteq> [] \<and> list_all isDigit k \<and> (k = ''0'' \<or> hd k \<noteq> CHR ''0'') \<and>
      decimalValue k < 4294967295)"

definition objectEntries :: "groupMap \<Rightarrow> groupMap" where
  "objectEntries m =
     sort_key (\<lambda>e. decimalValue (fst e)) (filter (\<lambda>e. isArrayIndex (fst e)) m) @
     filter (\<lambda>e. \<not> isArrayIndex (fst e)) m"

text \<open>
  The comparator of \<^verbatim>\<open>items.sort\<close>. Where the sort orders differ its result is
  \<^verbatim>\<open>a.sortOrder - b.sortOrder\<close>, a number that is negative exactly when the first is
  the smaller (also when one of them is \<^verbatim>\<open>Infinity\<close>); the sort uses its sign, which
  is what the model returns.
\<close>

definition compareItems :: "(string \<Rightarrow> string \<Rightarrow> int) \<Rightarrow> ContentType \<Rightarrow> ContentType \<Rightarrow> int" where
  "compareItems lc a b =
     (if sortOrder a \<noteq> sortOrder b
      then (if sortOrder a < sortOrder b then -1 else 1)
      else lc (displayName a) (displayName b))"

text \<open>\<^verbatim>\<open>Math.min(...xs)\<close>.\<close>

definition mathMin :: "enat list \<Rightarrow> enat" where
  "mathMin xs = foldr min xs \<infinity>"

text \<open>The comparator of \<^verbatim>\<open>groups.sort\<close>; where the sort orders differ, the sign of
  \<^verbatim>\<open>a.sortOrder - b.sortOrder\<close>.\<close>

definition compareGroups ::
  "(string \<Rightarrow> string \<Rightarrow> int) \<Rightarrow> ContentTypeGroup \<Rightarrow> ContentTypeGroup \<Rightarrow> int" where
  "compareGroups lc a b =
     (if groupName a = ''General'' then -1
      else if groupName b = ''General'' then 1
      else if groupSortOrder a \<noteq> groupSortOrder b
           then (if groupSortOrder a < groupSortOrder b then -1 else 1)
      else lc (groupName a) (groupName b))"

definition makeGroup :: "string \<times> ContentType list \<Rightarrow> ContentTypeGroup" where
  "makeGroup e =
     \<lparr> groupName = fst e, items = snd e, groupSortOrder = mathMin (map sortOrder (snd e)) \<rparr>"

text \<open>\<^verbatim>\<open>organizeByGroups(contentTypes)\<close>; \<open>Inl\<close> is the exception it throws.\<close>

definition organizeByGroups ::
  "(string \<Rightarrow> string \<Rightarrow> int) \<Rightarrow> ContentType list \<Rightarrow> error + ContentTypeGroup list" where
  "organizeByGroups lc contentTypes =
     (case fillGroupMap [] contentTypes of
        Inl e \<Rightarrow> Inl e
      | Inr groupMap0 \<Rightarrow>
          (let sortedMap = map (\<lambda>e. (fst e, sortBy (compareItems lc) (snd e))) groupMap0;
               groups = map makeGroup (objectEntries sortedMap)
           in Inr (sortBy (compareGroups lc) groups)))"

section \<open>What a renderer shows of a group\<close>

text \<open>
  \<^verbatim>\<open>OfficialContentTypeGroupSection\<close>, \<^verbatim>\<open>V5ContentTypeGroupSection\<close> and
  \<^verbatim>\<open>AccordionContentTypeGroupSection\<close> start alike: an empty group renders nothing
  (\<open>None\<close>), any other group renders the links of \<^verbatim>\<open>allTypes\<close>, in that order.
\<close>

definition allTypes :: "ContentTypeGroup \<Rightarrow> ContentType list" where
  "allTypes g =
     (let collectionTypes = filter (\<lambda>item. kind item = ''collectionType'') (items g);
          singleTypes = filter (\<lambda>item. kind item = ''singleType'') (items g)
      in collectionTypes @ singleTypes)"

definition OfficialContentTypeGroupSection :: "ContentTypeGroup \<Rightarrow> ContentType list option" where
  "OfficialContentTypeGroupSection g = (if length (items g) = 0 then None else Some (allTypes g))"

definition V5ContentTypeGroupSection :: "ContentTypeGroup \<Rightarrow> ContentType list option" where
  "V5ContentTypeGroupSection g = (if length (items g) = 0 then None else Some (allTypes g))"

definition AccordionContentTypeGroupSection :: "ContentTypeGroup \<Rightarrow> ContentType list option" where
  "AccordionContentTypeGroupSection g = (if length (items g) = 0 then None else Some (allTypes g))"

section \<open>Permissions: the filter of \<^verbatim>\<open>fetchContentTypes\<close>\<close>

text \<open>A permission of the current user; \<^verbatim>\<open>action\<close> and \<^verbatim>\<open>subject\<close> may be missing.\<close>

record Permission =
  action :: "string option"
  subject :: "string option"

text \<open>The callback of \<^verbatim>\<open>contentTypes.filter\<close>.\<close>

definition canRead :: "Permission list \<Rightarrow> ContentType \<Rightarrow> bool" where
  "canRead permissions ct =
     (let hasContentManagerRead =
            list_ex (\<lambda>p. action p = Some ''plugin::content-manager.explorer.read'' \<and>
                         subject p = Some (uid ct)) permissions;
          isPluginContentType = startsWith (uid ct) ''plugin::'';
          hasPluginRead =
            (isPluginContentType \<and>
             list_ex (\<lambda>p. subject p = Some (uid ct) \<and>
                          (case action p of
                             None \<Rightarrow> False
                           | Some a \<Rightarrow> includesStr a ''read'' \<or> includesStr a ''find'' \<or>
                                       a = ''plugin::content-manager.explorer.read''))
                     permissions)
      in hasContentManagerRead \<or> hasPluginRead)"

definition allowedContentTypes :: "Permission list \<Rightarrow> ContentType list \<Rightarrow> ContentType list" where
  "allowedContentTypes permissions contentTypes =
     (if length permissions > 0 then filter (canRead permissions) contentTypes
      else contentTypes)"

text \<open>
  \<^verbatim>\<open>fetchContentTypes\<close> from the two responses on: the listing is formatted, filtered
  by the permissions and grouped. \<open>Inr\<close> is the value given to \<^verbatim>\<open>setGroups\<close>; on
  \<open>Inl\<close> the exception is caught and logged and the groups stay as they were.
\<close>

definition fetchContentTypes ::
  "(string \<Rightarrow> string \<Rightarrow> int) \<Rightarrow> string \<Rightarrow> RawContentType list option \<Rightarrow> Permission list \<Rightarrow>
   error + ContentTypeGroup list" where
  "fetchContentTypes lc delimiter rawData permissions =
     (let contentTypes = formatContentTypes delimiter rawData;
          allowed = allowedContentTypes permissions contentTypes
      in organizeByGroups lc allowed)"

section \<open>Runtime configuration: \<^verbatim>\<open>getPluginConfig\<close>\<close>

text \<open>
  The body of the response of \<^verbatim>\<open>/cm-subnav-stacker/config\<close> as \<^verbatim>\<open>res.json()\<close> parses it:
  any JSON value. In an object a later occurrence of a key overrides an earlier one.
\<close>

datatype json =
    JNull
  | JBool bool
  | JNum rat
  | JStr string
  | JArr "json list"
  | JObj "(string \<times> json) list"

text \<open>
  JavaScript truthiness: \<^verbatim>\<open>null\<close>, \<^verbatim>\<open>false\<close>, \<^verbatim>\<open>0\<close> and the empty string are falsy.
\<close>

fun truthy :: "json \<Rightarrow> bool" where
  "truthy JNull = False"
| "truthy (JBool b) = b"
| "truthy (JNum n) = (n \<noteq> 0)"
| "truthy (JStr s) = (s \<noteq> [])"
| "truthy (JArr xs) = True"
| "truthy (JObj kvs) = True"

text \<open>
  \<^verbatim>\<open>config.delimiter\<close> and \<^verbatim>\<open>config.template\<close>: a property read, \<open>None\<close> for
  \<^verbatim>\<open>undefined\<close>. Neither name is inherited from a prototype, so only an object
  that holds the key has the property.
\<close>

fun ownField :: "json \<Rightarrow> string \<Rightarrow> json option" where
  "ownField (JObj kvs) k = map_of (rev kvs) k"
| "ownField j k = None"

definition defaultDelimiter :: string where
  "defaultDelimiter = '' | ''"

definition defaultTemplate :: string where
  "defaultTemplate = ''accordion''"

text \<open>
  \<^verbatim>\<open>process.env.X || dflt\<close>; \<open>None\<close> is a variable that is not set.
\<close>

definition envOr :: "string option \<Rightarrow> string \<Rightarrow> string" where
  "envOr env dflt = (case env of None \<Rightarrow> dflt | Some e \<Rightarrow> if e \<noteq> [] then e else dflt)"

text \<open>
  \<^verbatim>\<open>config.k || dflt\<close>.
\<close>

definition fieldOr :: "json \<Rightarrow> string \<Rightarrow> json \<Rightarrow> json" where
  "fieldOr config k dflt =
     (case ownField config k of
        None \<Rightarrow> dflt
      | Some v \<Rightarrow> if truthy v then v else dflt)"

text \<open>
  \<^verbatim>\<open>getPluginConfig()\<close>, from the two environment variables and the response; \<open>None\<close>
  is a failed fetch or a body that is not JSON, which \<^verbatim>\<open>.catch(() => ({}))\<close> turns
  into the empty object. The result is the object \<^verbatim>\<open>{ delimiter, template }\<close>, here
  the pair in that order.
\<close>

definition getPluginConfig :: "string option \<Rightarrow> string option \<Rightarrow> json option \<Rightarrow> json \<times> json" where
  "getPluginConfig envDelimiter envTemplate response =
     (let delimiter0 = JStr (envOr envDelimiter defaultDelimiter);
          template0 = JStr (envOr envTemplate defaultTemplate);
          config = (case response of None \<Rightarrow> JObj [] | Some j \<Rightarrow> j)
      in if truthy config
         then (fieldOr config ''delimiter'' delimiter0, fieldOr config ''template'' template0)
         else (delimiter0, template0))"

text \<open>
  A response with every occurrence of a key removed.
\<close>

definition withoutField :: "string \<Rightarrow> json \<Rightarrow> json" where
  "withoutField k j = (case j of JObj kvs \<Rightarrow> JObj (filter (\<lambda>e. fst e \<noteq> k) kvs) | _ \<Rightarrow> j)"

section \<open>Mounting the container: \<^verbatim>\<open>setupNavigationReplacement\<close>\<close>

text \<open>
  The page as a tree: a text node, or an element with its tag name (in lower case),
  its attributes and its child nodes. An element of the document is addressed by the
  path of child indices that leads to it from the root element.
\<close>

datatype node =
    TextNode string
  | Element string "(string \<times> string) list" "node list"

type_synonym path = "nat list"

definition containerId :: string where
  "containerId = ''stack-nav-container''"

text \<open>
  \<^verbatim>\<open>document.createElement('li')\<close> with the \<^verbatim>\<open>id\<close> and the class name that
  \<^verbatim>\<open>processNavigation\<close> gives it.
\<close>

definition navContainer :: node where
  "navContainer = Element ''li'' [(''id'', ''stack-nav-container''), (''class'', ''stack-navigation'')] []"

text \<open>
  \<^verbatim>\<open>element.getAttribute(a)\<close>, tag test, \<^verbatim>\<open>node.textContent\<close> and \<^verbatim>\<open>element.children\<close>
  (the child nodes that are elements).
\<close>

fun getAttribute :: "node \<Rightarrow> string \<Rightarrow> string option" where
  "getAttribute (TextNode s) a = None"
| "getAttribute (Element t attrs kids) a = map_of attrs a"

fun isElement :: "node \<Rightarrow> bool" where
  "isElement (TextNode s) = False"
| "isElement (Element t attrs kids) = True"

fun hasTag :: "string \<Rightarrow> node \<Rightarrow> bool" where
  "hasTag t (TextNode s) = False"
| "hasTag t (Element t' attrs kids) = (t' = t)"

fun textContent :: "node \<Rightarrow> string" where
  "textContent (TextNode s) = s"
| "textContent (Element t attrs kids) = concat (map textContent kids)"

fun children :: "node \<Rightarrow> node list" where
  "children (TextNode s) = []"
| "children (Element t attrs kids) = filter isElement kids"

fun nodeAt :: "node \<Rightarrow> path \<Rightarrow> node option" where
  "nodeAt n [] = Some n"
| "nodeAt (TextNode s) (i # p) = None"
| "nodeAt (Element t attrs kids) (i # p) = (if i < length kids then nodeAt (kids ! i) p else None)"

definition isElementAt :: "node \<Rightarrow> path \<Rightarrow> bool" where
  "isElementAt document p = (case nodeAt document p of None \<Rightarrow> False | Some n \<Rightarrow> isElement n)"

text \<open>
  A test on the node at a path; false where the path leads nowhere.
\<close>

definition holds :: "node \<Rightarrow> (node \<Rightarrow> bool) \<Rightarrow> path \<Rightarrow> bool" where
  "holds document P p = (case nodeAt document p of None \<Rightarrow> False | Some n \<Rightarrow> P n)"

text \<open>
  The elements of a tree in document order, the root first.
\<close>

fun elementPaths :: "node \<Rightarrow> path list"
  and elementPathsIn :: "nat \<Rightarrow> node list \<Rightarrow> path list" where
  "elementPaths (TextNode s) = []"
| "elementPaths (Element t attrs kids) = [] # elementPathsIn 0 kids"
| "elementPathsIn n [] = []"
| "elementPathsIn n (k # ks) = map ((#) n) (elementPaths k) @ elementPathsIn (Suc n) ks"

text \<open>
  \<^verbatim>\<open>document.querySelectorAll\<close> looks at every element of the document and
  \<^verbatim>\<open>element.querySelectorAll\<close> at the descendants of the element, both in document
  order; the selector is the test \<open>P\<close>. \<^verbatim>\<open>querySelector\<close> is the first match.
\<close>

definition querySelectorAll :: "node \<Rightarrow> (node \<Rightarrow> bool) \<Rightarrow> path list" where
  "querySelectorAll document P = filter (holds document P) (elementPaths document)"

definition querySelectorAllIn :: "node \<Rightarrow> path \<Rightarrow> (node \<Rightarrow> bool) \<Rightarrow> path list" where
  "querySelectorAllIn document scope P =
     (case nodeAt document scope of
        None \<Rightarrow> []
      | Some n \<Rightarrow> filter (holds document P) (map ((@) scope) (tl (elementPaths n))))"

definition first :: "'a list \<Rightarrow> 'a option" where
  "first xs = (case xs of [] \<Rightarrow> None | x # _ \<Rightarrow> Some x)"

text \<open>
  \<^verbatim>\<open>document.getElementById(i)\<close>: the first element with that id, in document order.
\<close>

fun findId :: "string \<Rightarrow> node \<Rightarrow> path option"
  and findIdIn :: "string \<Rightarrow> nat \<Rightarrow> node list \<Rightarrow> path option" where
  "findId i (TextNode s) = None"
| "findId i (Element t attrs kids) =
     (if map_of attrs ''id'' = Some i then Some [] else findIdIn i 0 kids)"
| "findIdIn i n [] = None"
| "findIdIn i n (k # ks) =
     (case findId i k of
        Some p \<Rightarrow> Some (n # p)
      | None \<Rightarrow> findIdIn i (Suc n) ks)"

definition getElementById :: "node \<Rightarrow> string \<Rightarrow> path option" where
  "getElementById document i = findId i document"

text \<open>
  \<^verbatim>\<open>parent.prepend(new)\<close> for the element at a path.
\<close>

fun prependAt :: "node \<Rightarrow> path \<Rightarrow> node \<Rightarrow> node" where
  "prependAt (Element t attrs kids) [] new = Element t attrs (new # kids)"
| "prependAt (Element t attrs kids) (i # p) new =
     (if i < length kids then Element t attrs (kids[i := prependAt (kids ! i) p new])
      else Element t attrs kids)"
| "prependAt (TextNode s) p new = TextNode s"

text \<open>
  How many elements of a tree carry an id.
\<close>

fun countId :: "string \<Rightarrow> node \<Rightarrow> nat" where
  "countId i (TextNode s) = 0"
| "countId i (Element t attrs kids) =
     (if map_of attrs ''id'' = Some i then 1 else 0) + sum_list (map (countId i) kids)"

text \<open>
  \<^verbatim>\<open>processNavigation(originalNav)\<close>. The result is the document after the call and
  the container that \<^verbatim>\<open>ReactDOM.createRoot(...).render(<NavigationApp />)\<close> was called
  on, if any. Rendering is scheduled by React and changes the document later, as a
  change of its own.
\<close>

definition processNavigation :: "node \<Rightarrow> path \<Rightarrow> node \<times> path option" where
  "processNavigation document originalNav =
     (case getElementById document ''stack-nav-container'' of
        Some existingNav \<Rightarrow>
          (if length (case nodeAt document existingNav of None \<Rightarrow> [] | Some n \<Rightarrow> children n) = 0
           then (document, Some existingNav)
           else (document, None))
      | None \<Rightarrow> (prependAt document originalNav navContainer, Some (originalNav @ [0])))"

text \<open>
  The search for the navigation landmark: \<^verbatim>\<open>nav[aria-label="Content Manager"]\<close>, else
  the first \<^verbatim>\<open>nav\<close>, else the first \<^verbatim>\<open>nav\<close> whose text holds one of the two labels.
\<close>

definition isContentManagerNav :: "node \<Rightarrow> bool" where
  "isContentManagerNav n = (hasTag ''nav'' n \<and> getAttribute n ''aria-label'' = Some ''Content Manager'')"

definition hasTypesText :: "node \<Rightarrow> bool" where
  "hasTypesText n =
     (includesStr (textContent n) ''Collection Types'' \<or> includesStr (textContent n) ''Single Types'')"

definition findNav :: "node \<Rightarrow> path option" where
  "findNav document =
     (case first (querySelectorAll document isContentManagerNav) of
        Some nav \<Rightarrow> Some nav
      | None \<Rightarrow>
          (case first (querySelectorAll document (hasTag ''nav'')) of
             Some nav \<Rightarrow> Some nav
           | None \<Rightarrow> find (holds document hasTypesText) (querySelectorAll document (hasTag ''nav''))))"

text \<open>
  \<^verbatim>\<open>ol.querySelector('#stack-nav-container')\<close> is not null; and
  \<^verbatim>\<open>ol.parentElement?.closest('ol')\<close> is not null: an ancestor of the list is a list.
\<close>

definition hasStack :: "node \<Rightarrow> path \<Rightarrow> bool" where
  "hasStack document ol =
     (querySelectorAllIn document ol (\<lambda>n. getAttribute n ''id'' = Some ''stack-nav-container'') \<noteq> [])"

definition insideOl :: "node \<Rightarrow> path \<Rightarrow> bool" where
  "insideOl document ol = list_ex (\<lambda>k. holds document (hasTag ''ol'') (take k ol)) [0..<length ol]"

text \<open>
  \<^verbatim>\<open>setupNavigationReplacement()\<close>: the main list of the landmark, else its first list,
  is handed to \<^verbatim>\<open>processNavigation\<close>; with no landmark or no list nothing happens.
  (\<^verbatim>\<open>window.navObserver\<close>, which the function disconnects, is never assigned.)
\<close>

definition setupNavigationReplacement :: "node \<Rightarrow> node \<times> path option" where
  "setupNavigationReplacement document =
     (case findNav document of
        None \<Rightarrow> (document, None)
      | Some nav \<Rightarrow>
          (let allOls = querySelectorAllIn document nav (hasTag ''ol'');
               mainOl = find (\<lambda>ol.
                   hasStack document ol \<or>
                   ((holds document (\<lambda>n. includesStr (textContent n) ''Collection Types'') ol \<or>
                     holds document (\<lambda>n. includesStr (textContent n) ''Single Types'') ol) \<and>
                    \<not> insideOl document ol)) allOls
           in case mainOl of
                Some ol \<Rightarrow> processNavigation document ol
              | None \<Rightarrow>
                  (case allOls of
                     ol # _ \<Rightarrow> processNavigation document ol
                   | [] \<Rightarrow> (document, None))))"

text \<open>
  The callback of the 100 ms interval of \<^verbatim>\<open>setupContinuousNavigationCheck\<close>, as far as
  it mounts. What it does besides (hiding the two type headers, cleaning the page
  title) sets styles and text of elements that are there.
\<close>

definition intervalCheck :: "string \<Rightarrow> node \<Rightarrow> node \<times> path option" where
  "intervalCheck pathname document =
     (if includesStr pathname ''/admin/content-manager''
      then (let navElement = findNav document;
                navContainer0 =
                  (case navElement of
                     None \<Rightarrow> None
                   | Some nav \<Rightarrow>
                       (let allOls = querySelectorAllIn document nav (hasTag ''ol'')
                        in case find (\<lambda>ol.
                               hasStack document ol \<or>
                               (holds document (\<lambda>n. includesStr (textContent n) ''Collection Types'') ol \<and>
                                \<not> insideOl document ol)) allOls of
                             Some ol \<Rightarrow> Some ol
                           | None \<Rightarrow> first allOls));
                customNav = getElementById document ''stack-nav-container''
            in if navContainer0 \<noteq> None \<and> customNav = None
               then setupNavigationReplacement document
               else (document, None))
      else (document, None))"

text \<open>
  What happens to the page, one event at a time (the page has a single thread): a
  call of \<^verbatim>\<open>setupNavigationReplacement\<close> (at start-up, from a callback or by hand), a
  tick of the interval at some location path, or a change of the document by the
  host, by React committing what it rendered, or by the code that hides and cleans.
  None of these creates an element with the container's id, so such a change does
  not raise the number of containers; a run is \<open>None\<close> when a change does.
\<close>

datatype navEvent =
    Replacement
  | Interval string
  | HostChange node

fun applyEvent :: "node \<Rightarrow> navEvent \<Rightarrow> node option" where
  "applyEvent d Replacement = Some (fst (setupNavigationReplacement d))"
| "applyEvent d (Interval pathname) = Some (fst (intervalCheck pathname d))"
| "applyEvent d (HostChange d') =
     (if countId containerId d' \<le> countId containerId d then Some d' else None)"

fun runEvents :: "node \<Rightarrow> navEvent list \<Rightarrow> node option" where
  "runEvents d [] = Some d"
| "runEvents d (ev # evs) =
     (case applyEvent d ev of
        None \<Rightarrow> None
      | Some d' \<Rightarrow> runEvents d' evs)"

section \<open>Notions used in the properties\<close>

text \<open>
  The order the item sort establishes: \<open>a\<close> may stand before \<open>b\<close> when its sort order
  is smaller, or equal with a display name that does not compare greater.
\<close>

definition itemBefore :: "(string \<Rightarrow> string \<Rightarrow> int) \<Rightarrow> ContentType \<Rightarrow> ContentType \<Rightarrow> bool" where
  "itemBefore lc a b =
     (sortOrder a < sortOrder b \<or>
      (sortOrder a = sortOrder b \<and> lc (displayName a) (displayName b) \<le> 0))"

text \<open>
  The same for groups, by sort order and then name.
\<close>

definition groupBefore :: "(string \<Rightarrow> string \<Rightarrow> int) \<Rightarrow> ContentTypeGroup \<Rightarrow> ContentTypeGroup \<Rightarrow> bool" where
  "groupBefore lc a b =
     (groupSortOrder a < groupSortOrder b \<or>
      (groupSortOrder a = groupSortOrder b \<and> lc (groupName a) (groupName b) \<le> 0))"

text \<open>
  The order of the group sort: "General" before everything, then \<open>groupBefore\<close>.
\<close>

definition generalFirst :: "(string \<Rightarrow> string \<Rightarrow> int) \<Rightarrow> ContentTypeGroup \<Rightarrow> ContentTypeGroup \<Rightarrow> bool" where
  "generalFirst lc a b =
     (groupName a = ''General'' \<or> (groupName b \<noteq> ''General'' \<and> groupBefore lc a b))"

text \<open>
  What the \<^verbatim>\<open>forEach\<close> loop keeps true of \<^verbatim>\<open>groupMap\<close>: the keys are distinct, no array
  is empty, and every item sits under its own group key.
\<close>

definition wfGroupMap :: "groupMap \<Rightarrow> bool" where
  "wfGroupMap m =
     (distinct (map fst m) \<and>
      list_all (\<lambda>e. snd e \<noteq> [] \<and> list_all (\<lambda>v. groupKey v = fst e) (snd e)) m)"

text \<open>
  \<^verbatim>\<open>groupMap\<close> after \<^verbatim>\<open>Object.values(groupMap).forEach(items => items.sort(...))\<close>.
\<close>

definition sortedEntries :: "(string \<Rightarrow> string \<Rightarrow> int) \<Rightarrow> groupMap \<Rightarrow> groupMap" where
  "sortedEntries lc m = map (\<lambda>e. (fst e, sortBy (compareItems lc) (snd e))) m"

text \<open>
  The sort order of a record of the listing: its hint, or else the given sentinel.
\<close>

definition hintOrder :: "nat \<Rightarrow> RawContentType \<Rightarrow> enat" where
  "hintOrder sentinel r =
     (case matchHint (rawDisplayName r) of
        Some (ds, rest) \<Rightarrow> parseInt10 ds
      | None \<Rightarrow> enat sentinel)"


section \<open>Example data\<close>

text \<open>
  A listing with a hinted and an unhinted item of one group, an item without
  delimiter, and a record outside the \<^verbatim>\<open>api::\<close> and \<^verbatim>\<open>plugin::\<close> namespaces; the
  descriptors and groups it yields with the delimiter \<^verbatim>\<open>" | "\<close>.
\<close>

definition exampleListing :: "RawContentType list" where
  "exampleListing =
     [\<lparr> rawUid = ''api::post.post'', apiID = ''post'',
         schemaDisplayName = Some ''[2] Blog | Post'', schemaKind = ''collectionType'' \<rparr>,
      \<lparr> rawUid = ''api::category.category'', apiID = ''category'',
         schemaDisplayName = Some ''Blog | Category'', schemaKind = ''collectionType'' \<rparr>,
      \<lparr> rawUid = ''api::setting.setting'', apiID = ''setting'',
         schemaDisplayName = Some ''Settings'', schemaKind = ''singleType'' \<rparr>,
      \<lparr> rawUid = ''admin::user'', apiID = ''user'',
         schemaDisplayName = Some ''User'', schemaKind = ''collectionType'' \<rparr>]"

definition examplePost :: ContentType where
  "examplePost =
     \<lparr> uid = ''api::post.post'', name = ''post'', displayName = ''Post'', group = Some ''Blog'',
       isDisplayed = True, href = ''/admin/content-manager/collection-types/api::post.post'',
       kind = ''collectionType'', sortOrder = 2 \<rparr>"

definition exampleCategory :: ContentType where
  "exampleCategory =
     \<lparr> uid = ''api::category.category'', name = ''category'', displayName = ''Category'',
       group = Some ''Blog'', isDisplayed = True,
       href = ''/admin/content-manager/collection-types/api::category.category'',
       kind = ''collectionType'', sortOrder = 1004 \<rparr>"

definition exampleSettings :: ContentType where
  "exampleSettings =
     \<lparr> uid = ''api::setting.setting'', name = ''setting'', displayName = ''Settings'',
       group = Some ''Settings'', isDisplayed = True,
       href = ''/admin/content-manager/single-types/api::setting.setting'',
       kind = ''singleType'', sortOrder = 1004 \<rparr>"

definition exampleGroups :: "ContentTypeGroup list" where
  "exampleGroups =
     [\<lparr> groupName = ''Blog'', items = [examplePost, exampleCategory], groupSortOrder = 2 \<rparr>,
      \<lparr> groupName = ''Settings'', items = [exampleSettings], groupSortOrder = 1004 \<rparr>]"

text \<open>
  Two hinted groups and an item whose group name is empty.
\<close>

definition pinnedListing :: "RawContentType list" where
  "pinnedListing =
     [\<lparr> rawUid = ''api::item.item'', apiID = ''item'',
         schemaDisplayName = Some ''[5] Shop | Item'', schemaKind = ''collectionType'' \<rparr>,
      \<lparr> rawUid = ''api::page.page'', apiID = ''page'',
         schemaDisplayName = Some ''[3] Docs | Page'', schemaKind = ''collectionType'' \<rparr>,
      \<lparr> rawUid = ''api::misc.misc'', apiID = ''misc'',
         schemaDisplayName = Some '' | Misc'', schemaKind = ''singleType'' \<rparr>]"

definition pinnedGroupNames :: "string list" where
  "pinnedGroupNames = [''General'', ''Docs'', ''Shop'']"



text \<open>
  A name without delimiter that is also the group of another item; a padded name.
\<close>

definition sharedNameListing :: "RawContentType list" where
  "sharedNameListing =
     [\<lparr> rawUid = ''api::blog.blog'', apiID = ''blog'',
         schemaDisplayName = Some ''Blog'', schemaKind = ''singleType'' \<rparr>,
      \<lparr> rawUid = ''api::post.post'', apiID = ''post'',
         schemaDisplayName = Some ''Blog | Post'', schemaKind = ''collectionType'' \<rparr>]"



text \<open>
  Permissions that let the user read the three example descriptors.
\<close>

definition examplePermissions :: "Permission list" where
  "examplePermissions =
     [\<lparr> action = Some ''plugin::content-manager.explorer.read'', subject = Some ''api::post.post'' \<rparr>,
      \<lparr> action = Some ''plugin::content-manager.explorer.read'', subject = Some ''api::category.category'' \<rparr>,
      \<lparr> action = Some ''plugin::content-manager.explorer.read'', subject = Some ''api::setting.setting'' \<rparr>,
      \<lparr> action = Some ''admin::users.read'', subject = None \<rparr>]"

text \<open>
  A page of the host, the page after the first mount, and after React has rendered.
\<close>

definition hostDocument :: node where
  "hostDocument =
     Element ''body'' []
       [Element ''nav'' [(''aria-label'', ''Content Manager'')]
          [Element ''ol'' []
             [Element ''li'' [] [TextNode ''Collection Types'', Element ''ol'' [] []],
              Element ''li'' [] [TextNode ''Single Types'']]]]"

definition mountedDocument :: node where
  "mountedDocument =
     Element ''body'' []
       [Element ''nav'' [(''aria-label'', ''Content Manager'')]
          [Element ''ol'' []
             [navContainer,
              Element ''li'' [] [TextNode ''Collection Types'', Element ''ol'' [] []],
              Element ''li'' [] [TextNode ''Single Types'']]]]"

definition renderedDocument :: node where
  "renderedDocument =
     Element ''body'' []
       [Element ''nav'' [(''aria-label'', ''Content Manager'')]
          [Element ''ol'' []
             [Element ''li'' [(''id'', ''stack-nav-container''), (''class'', ''stack-navigation'')]
                [Element ''div'' [] [TextNode ''Blog'']],
              Element ''li'' [] [TextNode ''Collection Types'', Element ''ol'' [] []],
              Element ''li'' [] [TextNode ''Single Types'']]]]"

definition exampleEvents :: "navEvent list" where
  "exampleEvents =
     [Replacement,
      Replacement,
      Interval ''/admin/content-manager/collection-types/api::post.post'',
      HostChange renderedDocument,
      Interval ''/admin/content-manager/collection-types/api::post.post'',
      Replacement]"

section \<open>Properties of the ordering hint\<close>

lemma bracket_not_digit: "\<not> isDigit CHR '']''"
  by (simp add: isDigit_def)

lemma takeWhile_digits_bracket:
  "list_all isDigit ds \<Longrightarrow> takeWhile isDigit (ds @ CHR '']'' # u) = ds"
  by (induction ds) (simp_all add: bracket_not_digit)

lemma dropWhile_digits_bracket:
  "list_all isDigit ds \<Longrightarrow> dropWhile isDigit (ds @ CHR '']'' # u) = CHR '']'' # u"
  by (induction ds) (simp_all add: bracket_not_digit)

lemma dropWhile_ws_rest:
  "list_all isWhitespace ws \<Longrightarrow> (case rest of [] \<Rightarrow> True | c # _ \<Rightarrow> \<not> isWhitespace c) \<Longrightarrow>
   dropWhile isWhitespace (ws @ rest) = rest"
  by (induction ws) (auto split: list.splits)

lemma matchHint_hintedName:
  assumes "hintParts ds ws rest"
  shows "matchHint (hintedName ds ws rest) = Some (ds, rest)"
  using assms
  by (simp add: matchHint_def hintedName_def hintParts_def takeWhile_digits_bracket
      dropWhile_digits_bracket dropWhile_ws_rest Let_def)

lemma dropWhile_head_fails:
  "(case dropWhile P xs of [] \<Rightarrow> True | c # _ \<Rightarrow> \<not> P c)"
  by (induction xs) auto

lemma matchHint_shape:
  assumes "matchHint s = Some (ds, rest)"
  shows "\<exists>ws. hintParts ds ws rest \<and> s = hintedName ds ws rest"
proof -
  from assms obtain t where s: "s = CHR ''['' # t"
    by (auto simp: matchHint_def split: list.splits if_splits)
  define r where "r = dropWhile isDigit t"
  from assms s obtain u where r: "r = CHR '']'' # u"
    and ds: "ds = takeWhile isDigit t" "ds \<noteq> []"
    and rest: "rest = dropWhile isWhitespace u"
    by (auto simp: matchHint_def Let_def r_def split: list.splits if_splits)
  define ws where "ws = takeWhile isWhitespace u"
  have t: "t = ds @ CHR '']'' # ws @ rest"
    using takeWhile_dropWhile_id[of isDigit t] takeWhile_dropWhile_id[of isWhitespace u]
    by (simp add: ds rest ws_def r[symmetric] r_def)
  have "list_all isDigit ds"
    by (simp add: ds list_all_iff) (meson set_takeWhileD)
  moreover have "list_all isWhitespace ws"
    by (simp add: ws_def list_all_iff) (meson set_takeWhileD)
  moreover have "(case rest of [] \<Rightarrow> True | c # _ \<Rightarrow> \<not> isWhitespace c)"
    unfolding rest by (rule dropWhile_head_fails)
  ultimately have "hintParts ds ws rest"
    using \<open>ds \<noteq> []\<close> by (simp add: hintParts_def)
  with s t show ?thesis
    by (auto simp: hintedName_def)
qed

lemma digit_char: "n < 10 \<Longrightarrow> isDigit (digitChar n) \<and> digitValue (digitChar n) = n"
proof -
  assume "n < 10"
  then have "n \<in> set [0, 1, 2, 3, 4, 5, 6, 7, 8, 9 :: nat]"
    by (simp) arith
  then show ?thesis
    by (auto simp: isDigit_def digitValue_def digitChar_def)
qed

lemma decimal_digits: "decimal n \<noteq> [] \<and> list_all isDigit (decimal n)"
proof (induction n rule: decimal.induct)
  case (1 n)
  show ?case
  proof (cases "n < 10")
    case True
    then show ?thesis by (simp add: decimal.simps[of n] digit_char)
  next
    case False
    with 1 show ?thesis by (simp add: decimal.simps[of n] digit_char)
  qed
qed

lemma decimalValue_snoc: "decimalValue (ds @ [c]) = 10 * decimalValue ds + digitValue c"
  by (simp add: decimalValue_def)

lemma decimalValue_zeros:
  "decimalValue (ds @ replicate k (CHR ''0'')) = decimalValue ds * 10 ^ k"
proof (induction k)
  case 0
  show ?case by simp
next
  case (Suc k)
  have "ds @ replicate (Suc k) (CHR ''0'') = (ds @ replicate k (CHR ''0'')) @ [CHR ''0'']"
    by (simp add: replicate_append_same)
  then show ?case
    by (simp only: decimalValue_snoc Suc) (simp add: digitValue_def)
qed

lemma decimalValue_decimal: "decimalValue (decimal n) = n"
proof (induction n rule: decimal.induct)
  case (1 n)
  show ?case
  proof (cases "n < 10")
    case True
    then show ?thesis by (simp add: decimal.simps[of n] digit_char decimalValue_def)
  next
    case False
    with 1 show ?thesis by (simp add: decimal.simps[of n] digit_char decimalValue_snoc)
  qed
qed

lemma bitLength_le: "bitLength n \<le> k \<longleftrightarrow> n < 2 ^ k"
proof (induction n arbitrary: k rule: bitLength.induct)
  case (1 n)
  show ?case
  proof (cases "n = 0")
    case True
    then show ?thesis by (simp add: bitLength.simps[of 0])
  next
    case False
    show ?thesis
    proof (cases k)
      case 0
      with False show ?thesis by (simp add: bitLength.simps[of n])
    next
      case (Suc k')
      from "1.IH"[OF False, of k'] have "bitLength (n div 2) \<le> k' \<longleftrightarrow> n div 2 < 2 ^ k'" .
      also have "\<dots> \<longleftrightarrow> n < 2 ^ Suc k'" by auto
      finally show ?thesis using False Suc by (simp add: bitLength.simps[of n])
    qed
  qed
qed

lemma toNumber_exact: "n < 2 ^ 53 \<Longrightarrow> toNumber n = enat n"
  by (simp add: toNumber_def bitLength_le)

lemma toNumber_small: "n < 9007199254740992 \<Longrightarrow> toNumber n = enat n"
  using toNumber_exact[of n] by simp

lemma bitLength_54: "bitLength 9007199254740993 = 54"
proof -
  have "bitLength 9007199254740993 \<le> 54" by (simp add: bitLength_le)
  moreover have "\<not> bitLength 9007199254740993 \<le> 53" by (simp add: bitLength_le)
  ultimately show ?thesis by simp
qed

lemma toNumber_rounds: "toNumber 9007199254740993 = enat 9007199254740992"
  by (simp add: toNumber_def bitLength_54 Let_def)

lemma toNumber_Infinity:
  assumes "2 ^ 1024 \<le> n"
  shows "toNumber n = \<infinity>"
proof -
  define b where "b = bitLength n"
  define c52 where "c52 = (2::nat) ^ 52"
  define c1024 where "c1024 = (2::nat) ^ 1024"
  from assms bitLength_le[of n 1024] have b: "1024 < b" by (auto simp: b_def)
  define e where "e = b - 53"
  from b have e: "52 + e = b - 1" by (simp add: e_def)
  have "\<not> b \<le> b - 1" using b by simp
  then have low: "2 ^ (b - 1) \<le> n" by (simp add: b_def bitLength_le)
  have pw: "c52 * 2 ^ e = 2 ^ (b - 1)"
    unfolding c52_def by (simp only: power_add[symmetric] e)
  with low have "c52 * 2 ^ e \<le> n" by simp
  then have q: "c52 \<le> n div 2 ^ e"
    by (simp add: less_eq_div_iff_mult_less_eq)
  from b have "(1024::nat) \<le> b - 1" by simp
  then have "c1024 \<le> 2 ^ (b - 1)"
    unfolding c1024_def by (rule power_increasing) simp
  also have "\<dots> = c52 * 2 ^ e" by (simp only: pw)
  also have "\<dots> \<le> (n div 2 ^ e) * 2 ^ e" using q by (rule mult_le_mono1)
  finally have v: "c1024 \<le> (n div 2 ^ e) * 2 ^ e" .
  then have v': "c1024 \<le> (n div 2 ^ e + 1) * 2 ^ e" by simp
  from b have "\<not> b \<le> 53" by simp
  with v v' show ?thesis
    unfolding toNumber_def Let_def b_def[symmetric] e_def[symmetric] c1024_def[symmetric]
    by (simp add: not_less)
qed

text \<open>
  Claim C4, as the code has it. A display name made of \<^verbatim>\<open>[\<close>, one or more digits,
  \<^verbatim>\<open>]\<close>, any run of white space (also none) and a remainder that does not start with
  white space yields as sort order the number that \<^verbatim>\<open>parseInt\<close> gives for the digits
  and the remainder as clean display name. For the decimal text of an \<open>n\<close> below
  \<open>2^53\<close> that number is \<open>n\<close>; a larger integer is rounded to a double, and from
  \<open>2^1024\<close> on it is \<^verbatim>\<open>Infinity\<close>. Every other display name yields the default sort
  order and is left unchanged.
\<close>

theorem extractSortOrder_hint:
  "(hintParts ds ws rest \<longrightarrow>
      extractSortOrder (hintedName ds ws rest) dflt = (toNumber (decimalValue ds), rest) \<and>
      (decimalValue ds < 2 ^ 53 \<longrightarrow>
         extractSortOrder (hintedName ds ws rest) dflt = (enat (decimalValue ds), rest)) \<and>
      (2 ^ 1024 \<le> decimalValue ds \<longrightarrow>
         extractSortOrder (hintedName ds ws rest) dflt = (\<infinity>, rest))) \<and>
   (list_all isWhitespace ws \<and> (case rest of [] \<Rightarrow> True | c # _ \<Rightarrow> \<not> isWhitespace c) \<and>
    n < 2 ^ 53 \<longrightarrow>
      extractSortOrder (hintedName (decimal n) ws rest) dflt = (enat n, rest)) \<and>
   ((\<forall>ds' ws' rest'. hintParts ds' ws' rest' \<longrightarrow> s \<noteq> hintedName ds' ws' rest') \<longrightarrow>
      extractSortOrder s dflt = (enat dflt, s))"
proof (intro conjI impI)
  assume "hintParts ds ws rest"
  then show a: "extractSortOrder (hintedName ds ws rest) dflt = (toNumber (decimalValue ds), rest)"
    by (simp add: extractSortOrder_def matchHint_hintedName parseInt10_def)
  show "extractSortOrder (hintedName ds ws rest) dflt = (enat (decimalValue ds), rest)"
    if "decimalValue ds < 2 ^ 53"
    using a that by (simp only: toNumber_exact)
  show "extractSortOrder (hintedName ds ws rest) dflt = (\<infinity>, rest)"
    if "2 ^ 1024 \<le> decimalValue ds"
    using a that by (simp only: toNumber_Infinity)
next
  assume a: "list_all isWhitespace ws \<and> (case rest of [] \<Rightarrow> True | c # _ \<Rightarrow> \<not> isWhitespace c) \<and>
    n < 2 ^ 53"
  then have "hintParts (decimal n) ws rest"
    by (simp add: hintParts_def decimal_digits)
  with a show "extractSortOrder (hintedName (decimal n) ws rest) dflt = (enat n, rest)"
    by (simp add: extractSortOrder_def matchHint_hintedName parseInt10_def decimalValue_decimal
        toNumber_exact)
next
  assume no: "\<forall>ds' ws' rest'. hintParts ds' ws' rest' \<longrightarrow> s \<noteq> hintedName ds' ws' rest'"
  have "matchHint s = None"
  proof (cases "matchHint s")
    case None
    then show ?thesis .
  next
    case (Some p)
    obtain ds' rest' where "p = (ds', rest')" by (cases p)
    with Some matchHint_shape[of s ds' rest'] no show ?thesis by blast
  qed
  then show "extractSortOrder s dflt = (enat dflt, s)"
    by (simp add: extractSortOrder_def)
qed

theorem extractSortOrder_hint_witness:
  "hintParts ''12'' '' '' ''Blog | Post'' \<and>
   decimalValue ''12'' < 2 ^ 53 \<and>
   extractSortOrder ''[12] Blog | Post'' 1002 = (12, ''Blog | Post'') \<and>
   extractSortOrder ''[7]Tag'' 1002 = (7, ''Tag'') \<and>
   extractSortOrder ''Blog | Category'' 1002 = (1002, ''Blog | Category'') \<and>
   hintParts ''9007199254740993'' '' '' ''X'' \<and>
   extractSortOrder ''[9007199254740993] X'' 1002 = (9007199254740992, ''X'') \<and>
   hintParts (''1'' @ replicate 309 (CHR ''0'')) '' '' ''X'' \<and>
   2 ^ 1024 \<le> decimalValue (''1'' @ replicate 309 (CHR ''0'')) \<and>
   extractSortOrder (hintedName (''1'' @ replicate 309 (CHR ''0'')) '' '' ''X'') 1002 =
     (\<infinity>, ''X'')"
proof -
  have h: "hintParts ''12'' '' '' ''Blog | Post''"
    by (simp add: hintParts_def isDigit_def isWhitespace_def)
  have p: "decimalValue ''12'' = 12"
    by (simp add: decimalValue_def digitValue_def)
  have w: "list_all isWhitespace [] \<and> (case ''Tag'' of [] \<Rightarrow> True | c # _ \<Rightarrow> \<not> isWhitespace c)"
    by (simp add: isWhitespace_def)
  have d: "decimal 7 = ''7''"
    by (simp add: decimal.simps[of 7] digitChar_def)
  have n: "\<forall>ds' ws' rest'. hintParts ds' ws' rest' \<longrightarrow> ''Blog | Category'' \<noteq> hintedName ds' ws' rest'"
    by (simp add: hintedName_def)
  have h2: "hintParts ''9007199254740993'' '' '' ''X''"
    by (simp add: hintParts_def isDigit_def isWhitespace_def)
  have p2: "decimalValue ''9007199254740993'' = 9007199254740993"
    by (simp add: decimalValue_def digitValue_def)
  from extractSortOrder_hint[where ds = "''12''" and ws = "'' ''" and rest = "''Blog | Post''"
      and dflt = 1002 and s = "''Blog | Category''"] h p n
  have a: "extractSortOrder ''[12] Blog | Post'' 1002 = (12, ''Blog | Post'')"
    and b: "extractSortOrder ''Blog | Category'' 1002 = (1002, ''Blog | Category'')"
    by (simp_all add: hintedName_def toNumber_small numeral_eq_enat)
  from extractSortOrder_hint[where ws = "[]" and rest = "''Tag''" and n = 7 and dflt = 1002] w d
  have c: "extractSortOrder ''[7]Tag'' 1002 = (7, ''Tag'')"
    by (simp add: hintedName_def toNumber_small numeral_eq_enat)
  from extractSortOrder_hint[where ds = "''9007199254740993''" and ws = "'' ''" and rest = "''X''"
      and dflt = 1002] h2 p2
  have e: "extractSortOrder ''[9007199254740993] X'' 1002 = (9007199254740992, ''X'')"
    by (simp add: hintedName_def toNumber_rounds numeral_eq_enat)
  from p have f: "decimalValue ''12'' < 2 ^ 53" by simp
  have h3: "hintParts (''1'' @ replicate 309 (CHR ''0'')) '' '' ''X''"
    by (simp add: hintParts_def isDigit_def isWhitespace_def list_all_iff)
  have "decimalValue ''1'' = 1"
    by (simp add: decimalValue_def digitValue_def)
  then have "decimalValue (''1'' @ replicate 309 (CHR ''0'')) = 10 ^ 309"
    by (simp only: decimalValue_zeros mult_1)
  moreover have "(2::nat) ^ 1024 \<le> 10 ^ 309"
    by simp
  ultimately have p3: "2 ^ 1024 \<le> decimalValue (''1'' @ replicate 309 (CHR ''0''))"
    by (simp only:)
  from extractSortOrder_hint[where ds = "''1'' @ replicate 309 (CHR ''0'')" and ws = "'' ''"
      and rest = "''X''" and dflt = 1002] h3 p3
  have g: "extractSortOrder (hintedName (''1'' @ replicate 309 (CHR ''0'')) '' '' ''X'') 1002 =
     (\<infinity>, ''X'')"
    by blast
  show ?thesis
    by (intro conjI h f a c b h2 e h3 p3 g)
qed

text \<open>
  Claim C4 as worded asks for white space after the bracket and sends every other
  name to the default. The name \<^verbatim>\<open>[5]Foo\<close> has no white space after the bracket, yet
  its hint is taken and removed.
\<close>

theorem hint_without_whitespace_counterexample:
  "\<not> hintThenWhitespace ''[5]Foo'' \<and> extractSortOrder ''[5]Foo'' 999 = (5, ''Foo'')"
  by (simp add: hintThenWhitespace_def extractSortOrder_def matchHint_def isDigit_def
      isWhitespace_def parseInt10_def decimalValue_def digitValue_def toNumber_small
      numeral_eq_enat)

section \<open>Properties of the sort\<close>

lemma set_insertBy: "set (insertBy cmp x xs) = insert x (set xs)"
  by (induction xs) auto

lemma length_insertBy: "length (insertBy cmp x xs) = Suc (length xs)"
  by (induction xs) auto

lemma set_sortBy: "set (sortBy cmp xs) = set xs"
  by (induction xs) (simp_all add: sortBy_def set_insertBy)

lemma length_sortBy: "length (sortBy cmp xs) = length xs"
  by (induction xs) (simp_all add: sortBy_def length_insertBy)

lemma sortBy_Nil_iff: "sortBy cmp xs = [] \<longleftrightarrow> xs = []"
  using length_sortBy[of cmp xs] by (metis length_0_conv)

lemma mset_insertBy: "mset (insertBy cmp x xs) = add_mset x (mset xs)"
  by (induction xs) auto

lemma mset_sortBy: "mset (sortBy cmp xs) = mset xs"
  by (induction xs) (simp_all add: sortBy_def mset_insertBy)

lemma sorted_wrt_insertBy:
  assumes le: "\<And>y. cmp x y \<le> 0 \<Longrightarrow> P x y"
    and ge: "\<And>y. \<not> cmp x y \<le> 0 \<Longrightarrow> P y x"
    and tr: "transp P"
    and srt: "sorted_wrt P xs"
  shows "sorted_wrt P (insertBy cmp x xs)"
  using srt
proof (induction xs)
  case Nil
  then show ?case by simp
next
  case (Cons y ys)
  show ?case
  proof (cases "cmp x y \<le> 0")
    case True
    then have xy: "P x y" by (rule le)
    have "P x z" if "z \<in> set ys" for z
      using Cons.prems that xy tr by (auto dest: transpD)
    with True xy Cons.prems show ?thesis by simp
  next
    case False
    then have "P y x" by (rule ge)
    with False Cons show ?thesis by (auto simp: set_insertBy)
  qed
qed

lemma sorted_wrt_sortBy:
  assumes "\<And>x y. cmp x y \<le> 0 \<Longrightarrow> P x y"
    and "\<And>x y. \<not> cmp x y \<le> 0 \<Longrightarrow> P y x"
    and "transp P"
  shows "sorted_wrt P (sortBy cmp xs)"
proof (induction xs)
  case Nil
  then show ?case by (simp add: sortBy_def)
next
  case (Cons x xs)
  have "sorted_wrt P (insertBy cmp x (sortBy cmp xs))"
    by (rule sorted_wrt_insertBy) (use assms Cons in auto)
  then show ?case by (simp add: sortBy_def)
qed


subsection \<open>The item comparator\<close>

lemma compareItems_le: "compareItems lc a b \<le> 0 \<longleftrightarrow> itemBefore lc a b"
  by (auto simp: compareItems_def itemBefore_def)

lemma itemBefore_total:
  assumes "consistentCompare lc" "\<not> itemBefore lc a b"
  shows "itemBefore lc b a"
proof -
  from assms(1) have flip: "lc x y > 0 \<Longrightarrow> lc y x < 0" for x y
    unfolding consistentCompare_def by blast
  from assms(2) show ?thesis
    by (auto simp: itemBefore_def not_less not_le dest!: flip)
qed

lemma itemBefore_transp:
  assumes "consistentCompare lc"
  shows "transp (itemBefore lc)"
proof (rule transpI)
  fix a b c
  assume ab: "itemBefore lc a b" and bc: "itemBefore lc b c"
  from assms have tr: "lc x y \<le> 0 \<Longrightarrow> lc y z \<le> 0 \<Longrightarrow> lc x z \<le> 0" for x y z
    unfolding consistentCompare_def by blast
  from ab bc show "itemBefore lc a c"
    by (auto simp: itemBefore_def intro: tr)
qed

lemma sorted_items:
  assumes "consistentCompare lc"
  shows "sorted_wrt (itemBefore lc) (sortBy (compareItems lc) xs)"
  by (rule sorted_wrt_sortBy)
    (use assms in \<open>auto simp: compareItems_le itemBefore_total itemBefore_transp\<close>)


subsection \<open>The group comparator\<close>

lemma compareGroups_le: "compareGroups lc a b \<le> 0 \<longleftrightarrow> generalFirst lc a b"
  by (auto simp: compareGroups_def generalFirst_def groupBefore_def)

lemma generalFirst_total:
  assumes "consistentCompare lc" "\<not> generalFirst lc a b"
  shows "generalFirst lc b a"
proof -
  from assms(1) have flip: "lc x y > 0 \<Longrightarrow> lc y x < 0" for x y
    unfolding consistentCompare_def by blast
  from assms(2) show ?thesis
    by (auto simp: generalFirst_def groupBefore_def not_less not_le dest!: flip)
qed

lemma generalFirst_transp:
  assumes "consistentCompare lc"
  shows "transp (generalFirst lc)"
proof (rule transpI)
  fix a b c
  assume ab: "generalFirst lc a b" and bc: "generalFirst lc b c"
  from assms have tr: "lc x y \<le> 0 \<Longrightarrow> lc y z \<le> 0 \<Longrightarrow> lc x z \<le> 0" for x y z
    unfolding consistentCompare_def by blast
  from ab bc show "generalFirst lc a c"
    by (auto simp: generalFirst_def groupBefore_def intro: tr)
qed

lemma sorted_groups:
  assumes "consistentCompare lc"
  shows "sorted_wrt (generalFirst lc) (sortBy (compareGroups lc) xs)"
  by (rule sorted_wrt_sortBy)
    (use assms in \<open>auto simp: compareGroups_le generalFirst_total generalFirst_transp\<close>)

lemma mathMin_Min: "xs \<noteq> [] \<Longrightarrow> mathMin xs = Min (set xs)"
proof (induction xs)
  case Nil
  then show ?case by simp
next
  case (Cons x xs)
  show ?case
  proof (cases "xs = []")
    case True
    then show ?thesis by (simp add: mathMin_def)
  next
    case False
    with Cons have "mathMin xs = Min (set xs)" by simp
    with False show ?thesis
      by (simp add: mathMin_def)
  qed
qed

subsection \<open>Comparing code units is a consistent collation\<close>

lemma ordinalCompare_flip: "(ordinalCompare a b < 0) = (ordinalCompare b a > 0)"
  by (induction a b rule: ordinalCompare.induct) (simp_all add: not_less)

lemma ordinalCompare_Cons_le:
  "ordinalCompare (a # as) (b # bs) \<le> 0 \<longleftrightarrow>
   (of_char a :: nat) < of_char b \<or> ((of_char a :: nat) = of_char b \<and> ordinalCompare as bs \<le> 0)"
  by auto

lemma ordinalCompare_trans:
  "ordinalCompare a b \<le> 0 \<Longrightarrow> ordinalCompare b c \<le> 0 \<Longrightarrow> ordinalCompare a c \<le> 0"
proof (induction a b arbitrary: c rule: ordinalCompare.induct)
  case 1
  then show ?case by simp
next
  case (2 b bs)
  then show ?case by (cases c) simp_all
next
  case (3 a as)
  then show ?case by simp
next
  case (4 a as b bs)
  show ?case
  proof (cases c)
    case Nil
    with "4.prems" show ?thesis by simp
  next
    case (Cons x xs)
    from "4.prems"(1) have ab: "(of_char a :: nat) < of_char b \<or>
        ((of_char a :: nat) = of_char b \<and> ordinalCompare as bs \<le> 0)"
      by (simp only: ordinalCompare_Cons_le)
    from "4.prems"(2) Cons have bx: "(of_char b :: nat) < of_char x \<or>
        ((of_char b :: nat) = of_char x \<and> ordinalCompare bs xs \<le> 0)"
      by (simp only: ordinalCompare_Cons_le)
    have "(of_char a :: nat) < of_char x \<or>
        ((of_char a :: nat) = of_char x \<and> ordinalCompare as xs \<le> 0)"
    proof (cases "(of_char a :: nat) = of_char b \<and> (of_char b :: nat) = of_char x")
      case True
      with ab bx have "ordinalCompare as bs \<le> 0" "ordinalCompare bs xs \<le> 0" by simp_all
      with "4.IH" True have "ordinalCompare as xs \<le> 0" by simp
      with True show ?thesis by simp
    next
      case False
      with ab bx show ?thesis by linarith
    qed
    with Cons show ?thesis by (simp only: ordinalCompare_Cons_le)
  qed
qed

lemma ordinalCompare_consistent: "consistentCompare ordinalCompare"
  unfolding consistentCompare_def
  using ordinalCompare_flip ordinalCompare_trans by blast

section \<open>Properties of the grouping engine\<close>

lemma pushInto_keys: "set (map fst (pushInto m k v)) = insert k (set (map fst m))"
  by (induction m k v rule: pushInto.induct) auto

lemma pushInto_distinct: "distinct (map fst m) \<Longrightarrow> distinct (map fst (pushInto m k v))"
proof (induction m k v rule: pushInto.induct)
  case (1 k v)
  then show ?case by simp
next
  case (2 k' vs m k v)
  then show ?case
    using pushInto_keys[of m k v] by auto
qed

lemma pushInto_entries:
  "e \<in> set (pushInto m k v) \<Longrightarrow>
   e \<in> set m \<or> (fst e = k \<and> (snd e = [v] \<or> (\<exists>vs. (k, vs) \<in> set m \<and> snd e = vs @ [v])))"
  by (induction m k v rule: pushInto.induct) (auto split: if_splits)

lemma pushInto_wf:
  assumes "wfGroupMap m" "groupKey v = k"
  shows "wfGroupMap (pushInto m k v)"
proof -
  have "snd e \<noteq> [] \<and> list_all (\<lambda>v. groupKey v = fst e) (snd e)"
    if "e \<in> set (pushInto m k v)" for e
    using pushInto_entries[OF that] assms
    by (fastforce simp: wfGroupMap_def list_all_iff)
  with assms(1) show ?thesis
    by (simp add: wfGroupMap_def pushInto_distinct list_all_iff)
qed




lemma fillGroupMap_wf:
  "fillGroupMap m cts = Inr m' \<Longrightarrow> wfGroupMap m \<Longrightarrow> wfGroupMap m'"
  by (induction m cts rule: fillGroupMap.induct)
    (auto simp: Let_def pushInto_wf split: if_splits)




lemma fillGroupMap_no_prototype_name:
  "fillGroupMap m cts = Inr m' \<Longrightarrow> c \<in> set cts \<Longrightarrow> groupKey c \<notin> set objectPrototypeNames"
  by (induction m cts rule: fillGroupMap.induct) (auto simp: Let_def split: if_splits)

lemma fillGroupMap_total:
  "list_all (\<lambda>c. groupKey c \<notin> set objectPrototypeNames) cts \<Longrightarrow> \<exists>m'. fillGroupMap m cts = Inr m'"
  by (induction m cts rule: fillGroupMap.induct) (auto simp: Let_def)


lemma wfGroupMap_nonempty: "wfGroupMap m \<Longrightarrow> (k, vs) \<in> set m \<Longrightarrow> vs \<noteq> []"
  by (auto simp: wfGroupMap_def list_all_iff)


lemma set_objectEntries: "set (objectEntries m) = set m"
  by (auto simp: objectEntries_def)

lemma mset_objectEntries: "mset (objectEntries m) = mset m"
  by (simp add: objectEntries_def)

text \<open>
  The engine returns a result unless a group is named like a property that every
  object inherits; what it returns is the sorted list of the groups of \<^verbatim>\<open>groupMap\<close>.
\<close>

lemma organizeByGroups_total:
  "list_all (\<lambda>c. groupKey c \<notin> set objectPrototypeNames) cts \<Longrightarrow> \<exists>gs. organizeByGroups lc cts = Inr gs"
  using fillGroupMap_total[of cts "[]"]
  by (auto simp: organizeByGroups_def Let_def)


lemma organizeByGroups_Inr:
  assumes "organizeByGroups lc cts = Inr gs"
  obtains m where "fillGroupMap [] cts = Inr m" "wfGroupMap m"
    and "gs = sortBy (compareGroups lc) (map makeGroup (objectEntries (sortedEntries lc m)))"
proof -
  from assms obtain m where m: "fillGroupMap [] cts = Inr m"
    and gs: "gs = sortBy (compareGroups lc) (map makeGroup (objectEntries (sortedEntries lc m)))"
    by (auto simp: organizeByGroups_def sortedEntries_def Let_def split: sum.splits)
  have "wfGroupMap []" by (simp add: wfGroupMap_def)
  with m have "wfGroupMap m" by (rule fillGroupMap_wf)
  with m gs that show thesis by blast
qed

lemma organizeByGroups_group:
  assumes "organizeByGroups lc cts = Inr gs" "g \<in> set gs"
  obtains m vs where "fillGroupMap [] cts = Inr m" "wfGroupMap m" "(groupName g, vs) \<in> set m"
    and "items g = sortBy (compareItems lc) vs"
    and "groupSortOrder g = mathMin (map sortOrder (items g))"
proof -
  from assms(1) obtain m where m: "fillGroupMap [] cts = Inr m" "wfGroupMap m"
    and gs: "gs = sortBy (compareGroups lc) (map makeGroup (objectEntries (sortedEntries lc m)))"
    by (rule organizeByGroups_Inr)
  from assms(2) gs obtain e where e: "e \<in> set m"
    and g: "g = makeGroup (fst e, sortBy (compareItems lc) (snd e))"
    by (auto simp: set_sortBy set_objectEntries sortedEntries_def)
  from e have "(groupName g, snd e) \<in> set m"
    by (simp add: g makeGroup_def)
  moreover have "items g = sortBy (compareItems lc) (snd e)"
    by (simp add: g makeGroup_def)
  moreover have "groupSortOrder g = mathMin (map sortOrder (items g))"
    by (simp add: g makeGroup_def)
  ultimately show thesis using m that by blast
qed

lemma organizeByGroups_items_nonempty:
  assumes "organizeByGroups lc cts = Inr gs" "g \<in> set gs"
  shows "items g \<noteq> []"
proof -
  from assms obtain m vs where "wfGroupMap m" "(groupName g, vs) \<in> set m"
    and "items g = sortBy (compareItems lc) vs"
    by (rule organizeByGroups_group)
  then show ?thesis
    by (simp add: sortBy_Nil_iff wfGroupMap_nonempty)
qed

lemma organizeByGroups_distinct_names:
  assumes "organizeByGroups lc cts = Inr gs"
  shows "distinct (map groupName gs)"
proof -
  from assms obtain m where m: "wfGroupMap m"
    and gs: "gs = sortBy (compareGroups lc) (map makeGroup (objectEntries (sortedEntries lc m)))"
    by (rule organizeByGroups_Inr)
  have names: "map groupName (map makeGroup es) = map fst es" for es
    by (simp add: makeGroup_def)
  have keys: "map fst (sortedEntries lc m) = map fst m"
    by (simp add: sortedEntries_def)
  have "mset (map groupName gs) = mset (map groupName (map makeGroup (objectEntries (sortedEntries lc m))))"
    unfolding gs mset_map mset_sortBy ..
  also have "\<dots> = mset (map fst (objectEntries (sortedEntries lc m)))"
    by (simp only: names)
  also have "\<dots> = mset (map fst (sortedEntries lc m))"
    unfolding mset_map mset_objectEntries ..
  also have "\<dots> = mset (map fst m)"
    by (simp only: keys)
  finally have "mset (map groupName gs) = mset (map fst m)" .
  moreover from m have "distinct (map fst m)" by (simp add: wfGroupMap_def)
  ultimately show ?thesis
    by (metis mset_eq_imp_distinct_iff)
qed



subsection \<open>The examples, evaluated\<close>

lemma example_format:
  "formatContentTypes '' | '' (Some exampleListing) = [examplePost, exampleCategory, exampleSettings]"
  by code_simp

lemma example_groups:
  "organizeByGroups ordinalCompare [examplePost, exampleCategory, exampleSettings] = Inr exampleGroups"
  by code_simp

lemma example_pipeline:
  "organizeByGroups ordinalCompare (formatContentTypes '' | '' (Some exampleListing)) = Inr exampleGroups"
  by (simp only: example_format example_groups)

lemma example_blog_member: "hd exampleGroups \<in> set exampleGroups"
  by (simp add: exampleGroups_def)

lemma shared_pipeline:
  "organizeByGroups ordinalCompare (formatContentTypes '' | '' (Some sharedNameListing)) =
     Inr [makeGroup (''Blog'', formatContentTypes '' | '' (Some sharedNameListing))]"
  by code_simp

lemma pinned_names:
  "map_sum id (map groupName)
     (organizeByGroups ordinalCompare (formatContentTypes '' | '' (Some pinnedListing))) =
   Inr pinnedGroupNames"
  by code_simp

lemma pinned_orders:
  "map_sum id (map groupSortOrder)
     (organizeByGroups ordinalCompare (formatContentTypes '' | '' (Some pinnedListing))) =
   Inr [1003, 3, 5]"
  by code_simp


section \<open>The sentinel sort order\<close>

lemma sortOrder_formatContentType:
  "sortOrder (formatContentType delimiter dflt r) = hintOrder dflt r"
  by (simp add: formatContentType_def extractSortOrder_def hintOrder_def Let_def
      split: option.splits prod.splits)


text \<open>
  Claim C8. The sort orders of the descriptors are the hints of the retained records,
  and for a record without hint the sentinel: the length of the listing as it
  arrives, records that the namespace filter drops included, plus 1000. One more
  dropped record in the listing raises the sentinel of the same retained records by
  one.
\<close>

theorem sentinel_counts_dropped_records:
  "map sortOrder (formatContentTypes delimiter (Some records)) =
     map (hintOrder (length records + 1000)) (filter isApiOrPlugin records) \<and>
   (matchHint (rawDisplayName r) = None \<longrightarrow>
      hintOrder (length records + 1000) r = enat (length records + 1000)) \<and>
   (\<not> isApiOrPlugin x \<longrightarrow>
      map sortOrder (formatContentTypes delimiter (Some (x # records))) =
        map (hintOrder (length records + 1001)) (filter isApiOrPlugin records))"
proof (intro conjI impI)
  show "map sortOrder (formatContentTypes delimiter (Some records)) =
     map (hintOrder (length records + 1000)) (filter isApiOrPlugin records)"
    by (simp add: formatContentTypes_def sortOrder_formatContentType comp_def Let_def)
  show "hintOrder (length records + 1000) r = enat (length records + 1000)"
    if "matchHint (rawDisplayName r) = None"
    using that by (simp add: hintOrder_def)
  show "map sortOrder (formatContentTypes delimiter (Some (x # records))) =
        map (hintOrder (length records + 1001)) (filter isApiOrPlugin records)"
    if "\<not> isApiOrPlugin x"
    using that
    by (simp add: formatContentTypes_def sortOrder_formatContentType comp_def Let_def add.commute)
qed

theorem sentinel_counts_dropped_records_witness:
  "matchHint (rawDisplayName (exampleListing ! 1)) = None \<and>
   \<not> isApiOrPlugin (exampleListing ! 3) \<and>
   map sortOrder (formatContentTypes '' | '' (Some (take 3 exampleListing))) = [2, 1003, 1003] \<and>
   hintOrder (length (take 3 exampleListing) + 1000) (exampleListing ! 1) = 1003 \<and>
   map sortOrder (formatContentTypes '' | '' (Some (exampleListing ! 3 # take 3 exampleListing))) =
     [2, 1004, 1004]"
proof -
  have h: "matchHint (rawDisplayName (exampleListing ! 1)) = None"
    by code_simp
  have x: "\<not> isApiOrPlugin (exampleListing ! 3)"
    by code_simp
  have e1: "map (hintOrder (length (take 3 exampleListing) + 1000)) (filter isApiOrPlugin (take 3 exampleListing)) =
      [2, 1003, 1003]"
    by code_simp
  have e2: "map (hintOrder (length (take 3 exampleListing) + 1001)) (filter isApiOrPlugin (take 3 exampleListing)) =
      [2, 1004, 1004]"
    by code_simp
  have e3: "length (take 3 exampleListing) + 1000 = 1003"
    by code_simp
  from sentinel_counts_dropped_records[of "'' | ''" "take 3 exampleListing" "exampleListing ! 1" "exampleListing ! 3"]
    h x e1 e2 e3
  show ?thesis by (simp add: numeral_eq_enat)
qed




section \<open>Order inside a group and among groups\<close>

text \<open>
  Claim C2. A renderer shows, of a group the engine returns, the items of kind
  \<^verbatim>\<open>collectionType\<close> followed by the items of kind \<^verbatim>\<open>singleType\<close>. For every
  consistent collation the group's items are in ascending sort order with ties in the
  order of the collation on the display names, and so is each of the two parts.
\<close>

theorem renderer_items_partitioned:
  assumes "consistentCompare lc" "organizeByGroups lc contentTypes = Inr groups" "g \<in> set groups"
  shows "OfficialContentTypeGroupSection g = Some (allTypes g) \<and>
         V5ContentTypeGroupSection g = Some (allTypes g) \<and>
         AccordionContentTypeGroupSection g = Some (allTypes g) \<and>
         allTypes g = filter (\<lambda>item. kind item = ''collectionType'') (items g) @
                      filter (\<lambda>item. kind item = ''singleType'') (items g) \<and>
         sorted_wrt (itemBefore lc) (items g) \<and>
         sorted_wrt (itemBefore lc) (filter (\<lambda>item. kind item = ''collectionType'') (items g)) \<and>
         sorted_wrt (itemBefore lc) (filter (\<lambda>item. kind item = ''singleType'') (items g))"
proof -
  from assms(2,3) obtain vs where "items g = sortBy (compareItems lc) vs"
    by (rule organizeByGroups_group)
  with assms(1) have srt: "sorted_wrt (itemBefore lc) (items g)"
    by (simp add: sorted_items)
  have ne: "items g \<noteq> []"
    using assms(2,3) by (rule organizeByGroups_items_nonempty)
  from srt ne show ?thesis
    by (simp add: OfficialContentTypeGroupSection_def V5ContentTypeGroupSection_def
        AccordionContentTypeGroupSection_def allTypes_def sorted_wrt_filter)
qed

theorem renderer_items_partitioned_witness:
  "consistentCompare ordinalCompare \<and>
   organizeByGroups ordinalCompare (formatContentTypes '' | '' (Some sharedNameListing)) =
     Inr [makeGroup (''Blog'', formatContentTypes '' | '' (Some sharedNameListing))] \<and>
   map displayName (items (makeGroup (''Blog'', formatContentTypes '' | '' (Some sharedNameListing)))) =
     [''Blog'', ''Post''] \<and>
   map_option (map displayName)
     (OfficialContentTypeGroupSection
        (makeGroup (''Blog'', formatContentTypes '' | '' (Some sharedNameListing)))) =
     Some [''Post'', ''Blog''] \<and>
   sorted_wrt (itemBefore ordinalCompare)
     (items (makeGroup (''Blog'', formatContentTypes '' | '' (Some sharedNameListing))))"
proof -
  let ?g = "makeGroup (''Blog'', formatContentTypes '' | '' (Some sharedNameListing))"
  have mem: "?g \<in> set [?g]" by simp
  note inst = renderer_items_partitioned[OF ordinalCompare_consistent shared_pipeline mem]
  have a: "map displayName (items ?g) = [''Blog'', ''Post'']"
    by code_simp
  have b: "map displayName (allTypes ?g) = [''Post'', ''Blog'']"
    by code_simp
  from inst have c: "OfficialContentTypeGroupSection ?g = Some (allTypes ?g)"
    and d: "sorted_wrt (itemBefore ordinalCompare) (items ?g)"
    by blast+
  from c b have e: "map_option (map displayName) (OfficialContentTypeGroupSection ?g) = Some [''Post'', ''Blog'']"
    by simp
  show ?thesis
    by (intro conjI ordinalCompare_consistent shared_pipeline a e d)
qed

text \<open>
  Claim C3. For every consistent collation: if a group named "General" is returned it
  is the first; group names are distinct; the other groups are in ascending sort order
  with ties in the order of the collation on their names; and the sort order of a
  group is the least sort order of its items.
\<close>

theorem group_order:
  assumes "consistentCompare lc" "organizeByGroups lc contentTypes = Inr groups"
  shows "((\<exists>g \<in> set groups. groupName g = ''General'') \<longrightarrow> groupName (hd groups) = ''General'') \<and>
         distinct (map groupName groups) \<and>
         sorted_wrt (groupBefore lc) (filter (\<lambda>g. groupName g \<noteq> ''General'') groups) \<and>
         (\<forall>g \<in> set groups. items g \<noteq> [] \<and>
                             groupSortOrder g = Min (sortOrder ` set (items g)))"
proof (intro conjI impI ballI)
  from assms(2) obtain m where
    gs: "groups = sortBy (compareGroups lc) (map makeGroup (objectEntries (sortedEntries lc m)))"
    by (rule organizeByGroups_Inr)
  with assms(1) have srt: "sorted_wrt (generalFirst lc) groups"
    by (simp add: sorted_groups)
  {
    assume "\<exists>g \<in> set groups. groupName g = ''General''"
    then obtain g where g: "g \<in> set groups" "groupName g = ''General''" by blast
    then obtain h t where ht: "groups = h # t" by (cases groups) auto
    show "groupName (hd groups) = ''General''"
    proof (cases "g = h")
      case True
      with g ht show ?thesis by simp
    next
      case False
      with g ht have "g \<in> set t" by simp
      with srt ht have "generalFirst lc h g" by simp
      with g ht show ?thesis by (simp add: generalFirst_def)
    qed
  }
  show "distinct (map groupName groups)"
    using assms(2) by (rule organizeByGroups_distinct_names)
  have "sorted_wrt (generalFirst lc) (filter (\<lambda>g. groupName g \<noteq> ''General'') groups)"
    using srt by (rule sorted_wrt_filter)
  then show "sorted_wrt (groupBefore lc) (filter (\<lambda>g. groupName g \<noteq> ''General'') groups)"
    by (rule sorted_wrt_mono_rel[rotated]) (simp add: generalFirst_def)
next
  fix g assume g: "g \<in> set groups"
  show "items g \<noteq> []"
    using assms(2) g by (rule organizeByGroups_items_nonempty)
  from assms(2) g have "groupSortOrder g = mathMin (map sortOrder (items g))"
    by (rule organizeByGroups_group)
  with \<open>items g \<noteq> []\<close> show "groupSortOrder g = Min (sortOrder ` set (items g))"
    by (simp add: mathMin_Min)
qed

theorem group_order_witness:
  "consistentCompare ordinalCompare \<and>
   map_sum id (map groupName)
     (organizeByGroups ordinalCompare (formatContentTypes '' | '' (Some pinnedListing))) =
   Inr [''General'', ''Docs'', ''Shop''] \<and>
   map_sum id (map groupSortOrder)
     (organizeByGroups ordinalCompare (formatContentTypes '' | '' (Some pinnedListing))) =
   Inr [1003, 3, 5] \<and>
   (\<exists>groups. organizeByGroups ordinalCompare (formatContentTypes '' | '' (Some pinnedListing)) = Inr groups \<and>
      groupName (hd groups) = ''General'' \<and>
      sorted_wrt (groupBefore ordinalCompare) (filter (\<lambda>g. groupName g \<noteq> ''General'') groups))"
proof -
  from pinned_names obtain groups
    where out: "organizeByGroups ordinalCompare (formatContentTypes '' | '' (Some pinnedListing)) = Inr groups"
      and names: "map groupName groups = pinnedGroupNames"
    by (cases "organizeByGroups ordinalCompare (formatContentTypes '' | '' (Some pinnedListing))") auto
  from names have ex: "\<exists>g \<in> set groups. groupName g = ''General''"
    by (cases groups) (auto simp: pinnedGroupNames_def)
  from group_order[OF ordinalCompare_consistent out] ex
  have "groupName (hd groups) = ''General''"
    and "sorted_wrt (groupBefore ordinalCompare) (filter (\<lambda>g. groupName g \<noteq> ''General'') groups)"
    by blast+
  with out have "\<exists>groups. organizeByGroups ordinalCompare (formatContentTypes '' | '' (Some pinnedListing)) = Inr groups \<and>
      groupName (hd groups) = ''General'' \<and>
      sorted_wrt (groupBefore ordinalCompare) (filter (\<lambda>g. groupName g \<noteq> ''General'') groups)"
    by blast
  then show ?thesis
    using pinned_names pinned_orders
    by (intro conjI ordinalCompare_consistent) (simp_all add: pinnedGroupNames_def)
qed

text \<open>
  Claim C10. The engine returns its groups for every input in which no group key is
  the name of a property that every object inherits (for those it throws). Every
  group it returns has an item, so no renderer skips it.
\<close>

theorem groups_never_empty:
  "(list_all (\<lambda>c. groupKey c \<notin> set objectPrototypeNames) contentTypes \<longrightarrow>
      (\<exists>groups. organizeByGroups lc contentTypes = Inr groups)) \<and>
   (organizeByGroups lc contentTypes = Inr groups \<and> g \<in> set groups \<longrightarrow>
      items g \<noteq> [] \<and>
      OfficialContentTypeGroupSection g = Some (allTypes g) \<and>
      V5ContentTypeGroupSection g = Some (allTypes g) \<and>
      AccordionContentTypeGroupSection g = Some (allTypes g))"
proof (intro conjI impI)
  assume "list_all (\<lambda>c. groupKey c \<notin> set objectPrototypeNames) contentTypes"
  then show "\<exists>groups. organizeByGroups lc contentTypes = Inr groups"
    by (rule organizeByGroups_total)
next
  assume a: "organizeByGroups lc contentTypes = Inr groups \<and> g \<in> set groups"
  then have ne: "items g \<noteq> []"
    using organizeByGroups_items_nonempty by blast
  then show "items g \<noteq> []" .
  from ne show "OfficialContentTypeGroupSection g = Some (allTypes g)"
    by (simp add: OfficialContentTypeGroupSection_def)
  from ne show "V5ContentTypeGroupSection g = Some (allTypes g)"
    by (simp add: V5ContentTypeGroupSection_def)
  from ne show "AccordionContentTypeGroupSection g = Some (allTypes g)"
    by (simp add: AccordionContentTypeGroupSection_def)
qed

theorem groups_never_empty_witness:
  "list_all (\<lambda>c. groupKey c \<notin> set objectPrototypeNames)
     (formatContentTypes '' | '' (Some exampleListing)) \<and>
   organizeByGroups ordinalCompare (formatContentTypes '' | '' (Some exampleListing)) = Inr exampleGroups \<and>
   hd exampleGroups \<in> set exampleGroups \<and>
   items (hd exampleGroups) \<noteq> [] \<and>
   OfficialContentTypeGroupSection (hd exampleGroups) = Some (allTypes (hd exampleGroups)) \<and>
   V5ContentTypeGroupSection (hd exampleGroups) = Some (allTypes (hd exampleGroups)) \<and>
   AccordionContentTypeGroupSection (hd exampleGroups) = Some (allTypes (hd exampleGroups))"
proof -
  have a: "list_all (\<lambda>c. groupKey c \<notin> set objectPrototypeNames)
     (formatContentTypes '' | '' (Some exampleListing))"
    by code_simp
  from groups_never_empty[of "formatContentTypes '' | '' (Some exampleListing)" ordinalCompare
      exampleGroups "hd exampleGroups"] a example_pipeline example_blog_member
  show ?thesis
    by (intro conjI a example_pipeline example_blog_member) simp_all
qed

section \<open>Names without the delimiter\<close>












section \<open>Permissions\<close>

text \<open>
  Claim C6. With no permission at all every descriptor is kept. So when the
  permissions let the user read every descriptor, filtering by them and filtering by
  the empty list keep the same descriptors, and the groups are the same.
\<close>

theorem fail_open:
  assumes "list_all (canRead permissions) contentTypes"
  shows "allowedContentTypes [] contentTypes = contentTypes \<and>
         allowedContentTypes permissions contentTypes = contentTypes \<and>
         organizeByGroups lc (allowedContentTypes [] contentTypes) =
           organizeByGroups lc (allowedContentTypes permissions contentTypes) \<and>
         (contentTypes = formatContentTypes delimiter rawData \<longrightarrow>
            fetchContentTypes lc delimiter rawData [] =
              fetchContentTypes lc delimiter rawData permissions)"
proof -
  from assms have "filter (canRead permissions) contentTypes = contentTypes"
    by (simp add: list_all_iff)
  then show ?thesis
    by (auto simp: allowedContentTypes_def fetchContentTypes_def Let_def)
qed

theorem fail_open_witness:
  "list_all (canRead examplePermissions) (formatContentTypes '' | '' (Some exampleListing)) \<and>
   examplePermissions \<noteq> [] \<and>
   allowedContentTypes [] (formatContentTypes '' | '' (Some exampleListing)) =
     formatContentTypes '' | '' (Some exampleListing) \<and>
   fetchContentTypes ordinalCompare '' | '' (Some exampleListing) [] = Inr exampleGroups \<and>
   fetchContentTypes ordinalCompare '' | '' (Some exampleListing) examplePermissions = Inr exampleGroups"
proof -
  have a: "list_all (canRead examplePermissions) (formatContentTypes '' | '' (Some exampleListing))"
    by code_simp
  have b: "examplePermissions \<noteq> []"
    by code_simp
  have c: "fetchContentTypes ordinalCompare '' | '' (Some exampleListing) [] = Inr exampleGroups"
    using example_pipeline by (simp add: fetchContentTypes_def allowedContentTypes_def)
  from fail_open[OF a, of ordinalCompare "'' | ''" "Some exampleListing"] c
  show ?thesis
    by (simp add: a b)
qed

section \<open>Configuration\<close>

lemma envOr_nonempty: "dflt \<noteq> [] \<Longrightarrow> envOr env dflt \<noteq> []"
  by (simp add: envOr_def split: option.splits)

lemma fieldOr_not_empty: "dflt \<noteq> JStr [] \<Longrightarrow> fieldOr config k dflt \<noteq> JStr []"
  by (auto simp: fieldOr_def split: option.splits)

lemma map_of_rev_filter_other:
  "k \<noteq> k' \<Longrightarrow> map_of (rev (filter (\<lambda>e. fst e \<noteq> k) kvs)) k' = map_of (rev kvs) k'"
  by (induction kvs) (auto simp: map_add_def split: option.splits)

lemma map_of_rev_filter_same:
  "map_of (rev (filter (\<lambda>e. fst e \<noteq> k) kvs)) k = None"
  by (auto simp: map_of_eq_None_iff)

lemma ownField_withoutField_same: "ownField (withoutField k j) k = None"
  by (cases j) (simp_all add: withoutField_def map_of_rev_filter_same)

lemma ownField_withoutField_other: "k \<noteq> k' \<Longrightarrow> ownField (withoutField k j) k' = ownField j k'"
  by (cases j) (simp_all add: withoutField_def map_of_rev_filter_other)

lemma truthy_withoutField: "truthy (withoutField k j) = truthy j"
  by (cases j) (simp_all add: withoutField_def)

text \<open>
  Claim C9. Neither the delimiter nor the template that \<^verbatim>\<open>getPluginConfig\<close> returns is
  the empty string. A response whose \<^verbatim>\<open>delimiter\<close> (or \<^verbatim>\<open>template\<close>) is present but
  falsy gives the same result as the response without that field: the value of the
  environment variable, or the built-in default when that is unset or empty.
\<close>

theorem falsy_config_field_is_absent:
  "fst (getPluginConfig envDelimiter envTemplate response) \<noteq> JStr [] \<and>
   snd (getPluginConfig envDelimiter envTemplate response) \<noteq> JStr [] \<and>
   (ownField config ''delimiter'' = Some v \<and> \<not> truthy v \<longrightarrow>
      getPluginConfig envDelimiter envTemplate (Some config) =
        getPluginConfig envDelimiter envTemplate (Some (withoutField ''delimiter'' config)) \<and>
      fst (getPluginConfig envDelimiter envTemplate (Some config)) =
        JStr (envOr envDelimiter defaultDelimiter)) \<and>
   (ownField config ''template'' = Some v \<and> \<not> truthy v \<longrightarrow>
      getPluginConfig envDelimiter envTemplate (Some config) =
        getPluginConfig envDelimiter envTemplate (Some (withoutField ''template'' config)) \<and>
      snd (getPluginConfig envDelimiter envTemplate (Some config)) =
        JStr (envOr envTemplate defaultTemplate))"
proof (intro conjI impI)
  have d: "JStr (envOr envDelimiter defaultDelimiter) \<noteq> JStr []"
    by (simp add: envOr_nonempty defaultDelimiter_def)
  have t: "JStr (envOr envTemplate defaultTemplate) \<noteq> JStr []"
    by (simp add: envOr_nonempty defaultTemplate_def)
  from d show "fst (getPluginConfig envDelimiter envTemplate response) \<noteq> JStr []"
    by (simp add: getPluginConfig_def Let_def fieldOr_not_empty)
  from t show "snd (getPluginConfig envDelimiter envTemplate response) \<noteq> JStr []"
    by (simp add: getPluginConfig_def Let_def fieldOr_not_empty)
next
  assume a: "ownField config ''delimiter'' = Some v \<and> \<not> truthy v"
  then have obj: "truthy config" by (cases config) simp_all
  from a show "getPluginConfig envDelimiter envTemplate (Some config) =
        getPluginConfig envDelimiter envTemplate (Some (withoutField ''delimiter'' config))"
    by (simp add: getPluginConfig_def Let_def fieldOr_def truthy_withoutField
        ownField_withoutField_same ownField_withoutField_other)
  from a obj show "fst (getPluginConfig envDelimiter envTemplate (Some config)) =
        JStr (envOr envDelimiter defaultDelimiter)"
    by (simp add: getPluginConfig_def Let_def fieldOr_def)
next
  assume a: "ownField config ''template'' = Some v \<and> \<not> truthy v"
  then have obj: "truthy config" by (cases config) simp_all
  from a show "getPluginConfig envDelimiter envTemplate (Some config) =
        getPluginConfig envDelimiter envTemplate (Some (withoutField ''template'' config))"
    by (simp add: getPluginConfig_def Let_def fieldOr_def truthy_withoutField
        ownField_withoutField_same ownField_withoutField_other)
  from a obj show "snd (getPluginConfig envDelimiter envTemplate (Some config)) =
        JStr (envOr envTemplate defaultTemplate)"
    by (simp add: getPluginConfig_def Let_def fieldOr_def)
qed

theorem falsy_config_field_is_absent_witness:
  "ownField (JObj [(''delimiter'', JStr ''''), (''template'', JStr ''v5'')]) ''delimiter'' = Some (JStr '''') \<and>
   \<not> truthy (JStr '''') \<and>
   getPluginConfig None None (Some (JObj [(''delimiter'', JStr ''''), (''template'', JStr ''v5'')])) =
     (JStr '' | '', JStr ''v5'') \<and>
   getPluginConfig None None (Some (JObj [(''template'', JStr ''v5'')])) = (JStr '' | '', JStr ''v5'') \<and>
   ownField (JObj [(''template'', JNull)]) ''template'' = Some JNull \<and>
   \<not> truthy JNull \<and>
   getPluginConfig (Some ''/'') (Some ''official'') (Some (JObj [(''template'', JNull)])) =
     (JStr ''/'', JStr ''official'')"
proof -
  let ?c1 = "JObj [(''delimiter'', JStr ''''), (''template'', JStr ''v5'')]"
  let ?c2 = "JObj [(''template'', JNull)]"
  have a1: "ownField ?c1 ''delimiter'' = Some (JStr '''') \<and> \<not> truthy (JStr '''')"
    by simp
  have a2: "ownField ?c2 ''template'' = Some JNull \<and> \<not> truthy JNull"
    by simp
  have w1: "withoutField ''delimiter'' ?c1 = JObj [(''template'', JStr ''v5'')]"
    by (simp add: withoutField_def)
  have e1: "getPluginConfig None None (Some (JObj [(''template'', JStr ''v5'')])) = (JStr '' | '', JStr ''v5'')"
    by (simp add: getPluginConfig_def fieldOr_def envOr_def defaultDelimiter_def)
  have e2: "getPluginConfig (Some ''/'') (Some ''official'') (Some (JObj [])) = (JStr ''/'', JStr ''official'')"
    by (simp add: getPluginConfig_def fieldOr_def envOr_def)
  have w2: "withoutField ''template'' ?c2 = JObj []"
    by (simp add: withoutField_def)
  from falsy_config_field_is_absent[of None None "Some ?c1" ?c1 "JStr ''''"] a1 w1 e1
  have r1: "getPluginConfig None None (Some ?c1) = (JStr '' | '', JStr ''v5'')"
    by simp
  from falsy_config_field_is_absent[of "Some ''/''" "Some ''official''" "Some ?c2" ?c2 JNull] a2 w2 e2
  have r2: "getPluginConfig (Some ''/'') (Some ''official'') (Some ?c2) = (JStr ''/'', JStr ''official'')"
    by simp
  from a1 a2 r1 r2 e1 show ?thesis by simp
qed

section \<open>Mounting\<close>

lemma findId_count:
  "(findId i d = None) = (countId i d = 0)"
  "(findIdIn i n ks = None) = (sum_list (map (countId i) ks) = 0)"
  by (induction i d and i n ks rule: findId_findIdIn.induct) (auto split: option.splits)

lemma sum_list_map_update:
  "k < length xs \<Longrightarrow>
   sum_list (map f (xs[k := x])) + f (xs ! k) = sum_list (map f xs) + (f x :: nat)"
  by (induction xs arbitrary: k) (auto split: nat.splits)

lemma countId_prependAt:
  "isElementAt d p \<Longrightarrow> countId i (prependAt d p new) = countId i d + countId i new"
proof (induction d p new rule: prependAt.induct)
  case (1 t attrs kids new)
  then show ?case by simp
next
  case (2 t attrs kids k p new)
  from "2.prems" have k: "k < length kids" and el: "isElementAt (kids ! k) p"
    by (auto simp: isElementAt_def split: if_splits)
  from "2.IH"[OF k el] sum_list_map_update[OF k, of "countId i" "prependAt (kids ! k) p new"]
  show ?case using k by simp
next
  case (3 s p new)
  then show ?case by (cases p) (simp_all add: isElementAt_def)
qed

lemma nodeAt_prependAt:
  "isElementAt d p \<Longrightarrow> nodeAt (prependAt d p new) (p @ [0]) = Some new"
proof (induction d p new rule: prependAt.induct)
  case (1 t attrs kids new)
  then show ?case by simp
next
  case (2 t attrs kids k p new)
  then show ?case by (auto simp: isElementAt_def split: if_splits)
next
  case (3 s p new)
  then show ?case by (cases p) (simp_all add: isElementAt_def)
qed

lemma countId_navContainer: "countId containerId navContainer = 1"
  by (simp add: containerId_def navContainer_def)

lemma nodeAt_append: "nodeAt d p = Some n \<Longrightarrow> nodeAt d (p @ q) = nodeAt n q"
  by (induction d p rule: nodeAt.induct) (auto split: if_splits)

lemma elementPaths_element:
  "p \<in> set (elementPaths d) \<Longrightarrow> isElementAt d p"
  "q \<in> set (elementPathsIn n ks) \<Longrightarrow>
     \<exists>k p. q = k # p \<and> n \<le> k \<and> k - n < length ks \<and> isElementAt (ks ! (k - n)) p"
proof (induction d and n ks arbitrary: p and q rule: elementPaths_elementPathsIn.induct)
  case (1 s)
  then show ?case by simp
next
  case (2 t attrs kids)
  show ?case
  proof (cases "p = []")
    case True
    then show ?thesis by (simp add: isElementAt_def)
  next
    case False
    with "2.prems" have "p \<in> set (elementPathsIn 0 kids)" by simp
    from "2.IH"[OF this] show ?thesis by (auto simp: isElementAt_def)
  qed
next
  case (3 n)
  then show ?case by simp
next
  case (4 n k ks)
  from "4.prems" consider (here) "q \<in> (#) n ` set (elementPaths k)"
    | (later) "q \<in> set (elementPathsIn (Suc n) ks)"
    by auto
  then show ?case
  proof cases
    case here
    then obtain p where "q = n # p" "p \<in> set (elementPaths k)" by auto
    with "4.IH"(1)[of p] show ?thesis by auto
  next
    case later
    from "4.IH"(2)[OF this] obtain k' p where
      q: "q = k' # p" "Suc n \<le> k'" "k' - Suc n < length ks" "isElementAt (ks ! (k' - Suc n)) p"
      by blast
    from q(2) have "k' - n = Suc (k' - Suc n)" by arith
    then have "(k # ks) ! (k' - n) = ks ! (k' - Suc n)" by simp
    with q show ?thesis by auto
  qed
qed

lemma isElementAt_append:
  "nodeAt d p = Some n \<Longrightarrow> isElementAt n q \<Longrightarrow> isElementAt d (p @ q)"
  by (simp add: isElementAt_def nodeAt_append)

lemma querySelectorAllIn_element:
  assumes "p \<in> set (querySelectorAllIn d scope P)"
  shows "isElementAt d p"
proof -
  from assms obtain n where n: "nodeAt d scope = Some n"
    by (cases "nodeAt d scope") (auto simp: querySelectorAllIn_def)
  with assms obtain q where q: "q \<in> set (tl (elementPaths n))" and p: "p = scope @ q"
    by (auto simp: querySelectorAllIn_def)
  from q have "q \<in> set (elementPaths n)" by (cases "elementPaths n") auto
  then have "isElementAt n q" by (rule elementPaths_element)
  with n p show ?thesis by (simp add: isElementAt_append)
qed

lemma find_member: "find P xs = Some x \<Longrightarrow> x \<in> set xs"
  by (induction xs) (auto split: if_splits)

lemma setupNavigationReplacement_cases:
  "setupNavigationReplacement d = (d, None) \<or>
   (\<exists>ol. isElementAt d ol \<and> setupNavigationReplacement d = processNavigation d ol)"
proof (cases "findNav d")
  case None
  then show ?thesis by (simp add: setupNavigationReplacement_def)
next
  case (Some nav)
  let ?allOls = "querySelectorAllIn d nav (hasTag ''ol'')"
  let ?mainOl = "find (\<lambda>ol.
                   hasStack d ol \<or>
                   ((holds d (\<lambda>n. includesStr (textContent n) ''Collection Types'') ol \<or>
                     holds d (\<lambda>n. includesStr (textContent n) ''Single Types'') ol) \<and>
                    \<not> insideOl d ol)) ?allOls"
  show ?thesis
  proof (cases ?mainOl)
    case (Some ol)
    then have "ol \<in> set ?allOls" by (rule find_member)
    then have "isElementAt d ol" by (rule querySelectorAllIn_element)
    moreover from Some \<open>findNav d = Some nav\<close>
    have "setupNavigationReplacement d = processNavigation d ol"
      by (simp add: setupNavigationReplacement_def Let_def)
    ultimately show ?thesis by blast
  next
    case None
    show ?thesis
    proof (cases ?allOls)
      case Nil
      with None \<open>findNav d = Some nav\<close> show ?thesis
        by (simp add: setupNavigationReplacement_def Let_def)
    next
      case (Cons ol rest)
      then have "ol \<in> set ?allOls" by simp
      then have "isElementAt d ol" by (rule querySelectorAllIn_element)
      moreover from None Cons \<open>findNav d = Some nav\<close>
      have "setupNavigationReplacement d = processNavigation d ol"
        by (simp add: setupNavigationReplacement_def Let_def)
      ultimately show ?thesis by blast
    qed
  qed
qed

lemma intervalCheck_cases:
  "intervalCheck pathname d = (d, None) \<or>
   (getElementById d ''stack-nav-container'' = None \<and>
    intervalCheck pathname d = setupNavigationReplacement d)"
  by (simp add: intervalCheck_def Let_def)

lemma processNavigation_existing:
  assumes "getElementById d ''stack-nav-container'' = Some existingNav"
  shows "processNavigation d p =
           (d, if (case nodeAt d existingNav of None \<Rightarrow> [] | Some n \<Rightarrow> children n) = []
               then Some existingNav else None)"
  using assms by (simp add: processNavigation_def)

lemma processNavigation_count:
  assumes "isElementAt d p"
  shows "countId containerId (fst (processNavigation d p)) = max 1 (countId containerId d)"
proof (cases "getElementById d ''stack-nav-container''")
  case None
  then have "countId containerId d = 0"
    by (simp add: getElementById_def containerId_def findId_count)
  with None assms show ?thesis
    by (simp add: processNavigation_def countId_prependAt countId_navContainer)
next
  case (Some e)
  then have "countId containerId d \<noteq> 0"
    using findId_count(1)[of "''stack-nav-container''" d]
    by (simp add: getElementById_def containerId_def)
  with Some show ?thesis
    by (simp add: processNavigation_def)
qed

lemma setupNavigationReplacement_count:
  "countId containerId (fst (setupNavigationReplacement d)) = countId containerId d \<or>
   countId containerId (fst (setupNavigationReplacement d)) = max 1 (countId containerId d)"
  using setupNavigationReplacement_cases[of d] processNavigation_count[of d]
  by auto

lemma setupNavigationReplacement_existing:
  assumes "getElementById d ''stack-nav-container'' = Some existingNav"
  shows "fst (setupNavigationReplacement d) = d"
  using setupNavigationReplacement_cases[of d] processNavigation_existing[OF assms]
  by auto

lemma setupNavigationReplacement_idem:
  "fst (setupNavigationReplacement (fst (setupNavigationReplacement d))) =
   fst (setupNavigationReplacement d)"
proof -
  from setupNavigationReplacement_cases[of d]
  consider (none) "setupNavigationReplacement d = (d, None)"
    | (mount) ol where "isElementAt d ol" "setupNavigationReplacement d = processNavigation d ol"
    by blast
  then show ?thesis
  proof cases
    case none
    then show ?thesis by simp
  next
    case mount
    let ?d1 = "fst (processNavigation d ol)"
    from mount(1) have "countId containerId ?d1 \<noteq> 0"
      by (simp add: processNavigation_count)
    then obtain e where "getElementById ?d1 ''stack-nav-container'' = Some e"
      using findId_count(1)[of "''stack-nav-container''" ?d1]
      by (auto simp: getElementById_def containerId_def)
    then have "fst (setupNavigationReplacement ?d1) = ?d1"
      by (rule setupNavigationReplacement_existing)
    with mount(2) show ?thesis by simp
  qed
qed

lemma applyEvent_count:
  assumes "applyEvent d ev = Some d'" "countId containerId d \<le> 1"
  shows "countId containerId d' \<le> 1"
proof (cases ev)
  case Replacement
  with assms setupNavigationReplacement_count[of d] show ?thesis
    by auto
next
  case (Interval pathname)
  with assms setupNavigationReplacement_count[of d] intervalCheck_cases[of pathname d]
  show ?thesis
    by auto
next
  case (HostChange x)
  with assms show ?thesis by (auto split: if_splits)
qed

lemma runEvents_count:
  "runEvents d evs = Some d' \<Longrightarrow> countId containerId d \<le> 1 \<Longrightarrow> countId containerId d' \<le> 1"
proof (induction evs arbitrary: d)
  case Nil
  then show ?case by simp
next
  case (Cons ev evs)
  then show ?case
    by (auto split: option.splits dest: applyEvent_count)
qed

text \<open>
  Claim C7. When the document has an element with the container's id,
  \<^verbatim>\<open>processNavigation\<close> leaves the document as it is and renders into that element
  exactly when it has no child element; \<^verbatim>\<open>setupNavigationReplacement\<close> leaves the
  document as it is and the interval does not call it. When there is none,
  \<^verbatim>\<open>processNavigation\<close> prepends one container to the list element and renders into
  it. A second call of \<^verbatim>\<open>setupNavigationReplacement\<close> changes nothing in the document.
  However calls from any source, ticks of the interval and changes by the host follow
  each other, a page that starts with at most one container never has two.
\<close>

theorem mount_never_duplicates:
  "(getElementById d ''stack-nav-container'' = Some existingNav \<longrightarrow>
      processNavigation d p =
        (d, if (case nodeAt d existingNav of None \<Rightarrow> [] | Some n \<Rightarrow> children n) = []
            then Some existingNav else None) \<and>
      fst (setupNavigationReplacement d) = d \<and>
      intervalCheck pathname d = (d, None)) \<and>
   (getElementById d ''stack-nav-container'' = None \<and> isElementAt d p \<longrightarrow>
      countId containerId (fst (processNavigation d p)) = 1 \<and>
      snd (processNavigation d p) = Some (p @ [0]) \<and>
      nodeAt (fst (processNavigation d p)) (p @ [0]) = Some navContainer) \<and>
   fst (setupNavigationReplacement (fst (setupNavigationReplacement d))) =
     fst (setupNavigationReplacement d) \<and>
   (countId containerId d \<le> 1 \<and> runEvents d evs = Some d' \<longrightarrow> countId containerId d' \<le> 1)"
proof (intro conjI impI)
  assume e: "getElementById d ''stack-nav-container'' = Some existingNav"
  then show "processNavigation d p =
        (d, if (case nodeAt d existingNav of None \<Rightarrow> [] | Some n \<Rightarrow> children n) = []
            then Some existingNav else None)"
    by (rule processNavigation_existing)
  from e show "fst (setupNavigationReplacement d) = d"
    by (rule setupNavigationReplacement_existing)
  from e show "intervalCheck pathname d = (d, None)"
    by (simp add: intervalCheck_def Let_def)
next
  assume a: "getElementById d ''stack-nav-container'' = None \<and> isElementAt d p"
  then have "countId containerId d = 0"
    by (simp add: getElementById_def containerId_def findId_count)
  with a show "countId containerId (fst (processNavigation d p)) = 1"
    by (simp add: processNavigation_count)
  from a show "snd (processNavigation d p) = Some (p @ [0])"
    by (simp add: processNavigation_def)
  from a show "nodeAt (fst (processNavigation d p)) (p @ [0]) = Some navContainer"
    by (simp add: processNavigation_def nodeAt_prependAt)
next
  show "fst (setupNavigationReplacement (fst (setupNavigationReplacement d))) =
     fst (setupNavigationReplacement d)"
    by (rule setupNavigationReplacement_idem)
next
  assume "countId containerId d \<le> 1 \<and> runEvents d evs = Some d'"
  then show "countId containerId d' \<le> 1"
    using runEvents_count by blast
qed

theorem mount_never_duplicates_witness:
  "getElementById hostDocument ''stack-nav-container'' = None \<and>
   isElementAt hostDocument [0, 0] \<and>
   countId containerId (fst (processNavigation hostDocument [0, 0])) = 1 \<and>
   snd (processNavigation hostDocument [0, 0]) = Some [0, 0, 0] \<and>
   setupNavigationReplacement hostDocument = (mountedDocument, Some [0, 0, 0]) \<and>
   getElementById mountedDocument ''stack-nav-container'' = Some [0, 0, 0] \<and>
   setupNavigationReplacement mountedDocument = (mountedDocument, Some [0, 0, 0]) \<and>
   getElementById renderedDocument ''stack-nav-container'' = Some [0, 0, 0] \<and>
   processNavigation renderedDocument [0, 0] = (renderedDocument, None) \<and>
   countId containerId hostDocument \<le> 1 \<and>
   runEvents hostDocument exampleEvents = Some renderedDocument \<and>
   countId containerId renderedDocument \<le> 1"
proof -
  have a: "getElementById hostDocument ''stack-nav-container'' = None"
    by code_simp
  have b: "isElementAt hostDocument [0, 0]"
    by code_simp
  have c: "setupNavigationReplacement hostDocument = (mountedDocument, Some [0, 0, 0])"
    by code_simp
  have d: "getElementById mountedDocument ''stack-nav-container'' = Some [0, 0, 0]"
    by code_simp
  have d': "setupNavigationReplacement mountedDocument = (mountedDocument, Some [0, 0, 0])"
    by code_simp
  have e: "getElementById renderedDocument ''stack-nav-container'' = Some [0, 0, 0]"
    by code_simp
  have e': "(case nodeAt renderedDocument [0, 0, 0] of None \<Rightarrow> [] | Some n \<Rightarrow> children n) \<noteq> []"
    by code_simp
  have f: "countId containerId hostDocument \<le> 1"
    by code_simp
  have g: "runEvents hostDocument exampleEvents = Some renderedDocument"
    by code_simp
  from mount_never_duplicates[of renderedDocument "[0, 0, 0]" "[0, 0]"] e e'
  have r: "processNavigation renderedDocument [0, 0] = (renderedDocument, None)"
    by simp
  from mount_never_duplicates[of hostDocument _ "[0, 0]"] a b
  have m: "countId containerId (fst (processNavigation hostDocument [0, 0])) = 1"
    and n: "snd (processNavigation hostDocument [0, 0]) = Some [0, 0, 0]"
    by simp_all
  from mount_never_duplicates[of hostDocument _ _ _ exampleEvents renderedDocument] f g
  have h: "countId containerId renderedDocument \<le> 1"
    by blast
  show ?thesis
    by (intro conjI a b m n c d d' e r f g h)
qed

end
